theory Spec2Isabelle
  imports Complex_Main "HOL-Library.Multiset"
begin


section \<open>Data model\<close>

text \<open>
  The exceptions the modelled code can raise. \<open>ValueError\<close> is what numpy raises from
  \<^verbatim>\<open>.item()\<close> on an array whose size is not one and from \<^verbatim>\<open>np.min\<close> of an empty
  array; \<open>IndexError\<close> comes from indexing an empty sequence, \<open>KeyError\<close> from a
  dictionary lookup that misses.
\<close>

datatype error = ValueError | IndexError | KeyError

text \<open>
  The result of a numpy floating-point division: a finite value, or one of
  \<^verbatim>\<open>inf\<close>, \<^verbatim>\<open>-inf\<close>, \<^verbatim>\<open>nan\<close>. Rounding is not modelled: finite values are reals.
\<close>

datatype npfloat = Finite real | NonFinite

text \<open>
  A tree (\<^verbatim>\<open>DictSWC\<close>) holds its nodes as columns, \<^verbatim>\<open>ndata[key]\<close>, one array per
  SWC field, and a provenance label \<^verbatim>\<open>source\<close>. The type parameter is the type of the
  values of the coordinate and radius columns. In a tree the library builds all columns
  have the length of the id column, the node count \<open>tree_len\<close>; \<open>wf_tree\<close> says so.
\<close>

record 'v tree =
  nd_id :: "int list"
  nd_type :: "int list"
  nd_x :: "'v list"
  nd_y :: "'v list"
  nd_z :: "'v list"
  nd_r :: "'v list"
  nd_pid :: "int list"
  source :: string

definition wf_tree :: "('v, 'm) tree_scheme \<Rightarrow> bool" where
  "wf_tree t \<longleftrightarrow>
     length (nd_type t) = length (nd_id t) \<and> length (nd_x t) = length (nd_id t) \<and>
     length (nd_y t) = length (nd_id t) \<and> length (nd_z t) = length (nd_id t) \<and>
     length (nd_r t) = length (nd_id t) \<and> length (nd_pid t) = length (nd_id t)"

definition tree_len :: "('v, 'm) tree_scheme \<Rightarrow> nat" where
  "tree_len t = length (nd_id t)"

section \<open>Homogeneous coordinates\<close>

text \<open>
  A point in homogeneous coordinates is a row of four values, a transformation matrix is
  four rows. \<open>dot\<close> is numpy's \<^verbatim>\<open>dot\<close> on these shapes: a row times a matrix
  (\<open>vec_mat\<close>), and a matrix times a matrix.
\<close>

type_synonym vec4 = "real \<times> real \<times> real \<times> real"
type_synonym mat4 = "vec4 \<times> vec4 \<times> vec4 \<times> vec4"

fun vec_mat :: "vec4 \<Rightarrow> mat4 \<Rightarrow> vec4" where
  "vec_mat (a, b, c, d)
     ((m00, m01, m02, m03), (m10, m11, m12, m13), (m20, m21, m22, m23), (m30, m31, m32, m33)) =
     (a * m00 + b * m10 + c * m20 + d * m30,
      a * m01 + b * m11 + c * m21 + d * m31,
      a * m02 + b * m12 + c * m22 + d * m32,
      a * m03 + b * m13 + c * m23 + d * m33)"

fun dot :: "mat4 \<Rightarrow> mat4 \<Rightarrow> mat4" where
  "dot (r0, r1, r2, r3) m = (vec_mat r0 m, vec_mat r1 m, vec_mat r2 m, vec_mat r3 m)"

fun col0 :: "vec4 \<Rightarrow> real" where "col0 (a, b, c, d) = a"
fun col1 :: "vec4 \<Rightarrow> real" where "col1 (a, b, c, d) = b"
fun col2 :: "vec4 \<Rightarrow> real" where "col2 (a, b, c, d) = c"

text \<open>
  Modelled from the spec: the matrix builders \<^verbatim>\<open>translate3d\<close>, \<^verbatim>\<open>scale3d\<close>,
  \<^verbatim>\<open>rotate3d\<close>, \<^verbatim>\<open>rotate3d_x\<close>, \<^verbatim>\<open>rotate3d_y\<close>, \<^verbatim>\<open>rotate3d_z\<close> of the
  \<^verbatim>\<open>utils\<close> package are not among the sources. The spec gives them as a pure
  translation, a pure diagonal scale, the Rodrigues rotation about a unit axis and its
  axis-aligned shorthands, all in the row-vector convention \<^verbatim>\<open>p' = [x,y,z,1] . M\<close>.
\<close>

definition translate3d :: "real \<Rightarrow> real \<Rightarrow> real \<Rightarrow> mat4" where
  "translate3d tx ty tz = ((1, 0, 0, 0), (0, 1, 0, 0), (0, 0, 1, 0), (tx, ty, tz, 1))"

definition scale3d :: "real \<Rightarrow> real \<Rightarrow> real \<Rightarrow> mat4" where
  "scale3d sx sy sz = ((sx, 0, 0, 0), (0, sy, 0, 0), (0, 0, sz, 0), (0, 0, 0, 1))"

definition rotate3d :: "real \<times> real \<times> real \<Rightarrow> real \<Rightarrow> mat4" where
  "rotate3d n theta =
     (case n of (nx, ny, nz) \<Rightarrow>
        let c = cos theta; s = sin theta; k = 1 - cos theta
        in ((c + k * nx * nx, k * nx * ny + s * nz, k * nx * nz - s * ny, 0),
            (k * nx * ny - s * nz, c + k * ny * ny, k * ny * nz + s * nx, 0),
            (k * nx * nz + s * ny, k * ny * nz - s * nx, c + k * nz * nz, 0),
            (0, 0, 0, 1)))"

definition rotate3d_x :: "real \<Rightarrow> mat4" where
  "rotate3d_x theta = rotate3d (1, 0, 0) theta"

definition rotate3d_y :: "real \<Rightarrow> mat4" where
  "rotate3d_y theta = rotate3d (0, 1, 0) theta"

definition rotate3d_z :: "real \<Rightarrow> mat4" where
  "rotate3d_z theta = rotate3d (0, 0, 1) theta"

text \<open>
  Modelled from the spec: \<^verbatim>\<open>DictSWC.xyz\<close> and \<^verbatim>\<open>DictSWC.xyzw\<close> are not among the
  sources. \<open>xyz\<close> is the array of node positions, \<open>xyzw\<close> the same with the fourth
  (homogeneous) coordinate fixed at 1.
\<close>

definition xyz :: "real tree \<Rightarrow> (real \<times> real \<times> real) list" where
  "xyz t = map (\<lambda>i. (nd_x t ! i, nd_y t ! i, nd_z t ! i)) [0..<length (nd_id t)]"

definition xyzw :: "real tree \<Rightarrow> vec4 list" where
  "xyzw t = map (\<lambda>i. (nd_x t ! i, nd_y t ! i, nd_z t ! i, 1)) [0..<length (nd_id t)]"

section \<open>Transforms (transforms/geometry.py)\<close>

datatype center = Root | Soma | Origin

text \<open>The fields of \<^verbatim>\<open>_Transform\<close>: the raw matrix, the pivot mode and the label.\<close>

record transform =
  tm :: mat4
  center :: center
  fmt :: string

text \<open>
  \<^verbatim>\<open>_Transform.__init__(tm, center="origin", fmt="")\<close>: an argument the caller leaves
  out is \<open>None\<close> and takes the default of the signature.
\<close>

definition Transform_init :: "mat4 \<Rightarrow> center option \<Rightarrow> string option \<Rightarrow> transform" where
  "Transform_init m c f =
     \<lparr>tm = m,
      center = (case c of None \<Rightarrow> Origin | Some c' \<Rightarrow> c'),
      fmt = (case f of None \<Rightarrow> '''' | Some f' \<Rightarrow> f')\<rparr>"

text \<open>
  The constructors of the variants. The f-strings render floats; the rendering of a float
  by the empty format specification is the parameter \<open>str\<close>, the rendering by
  \<^verbatim>\<open>.4f\<close> is the parameter \<open>str4\<close>. \<open>Translate\<close> has no \<^verbatim>\<open>center\<close> parameter and
  passes none on; the others default theirs to \<^verbatim>\<open>"root"\<close>.
\<close>

definition Translate :: "(real \<Rightarrow> string) \<Rightarrow> real \<Rightarrow> real \<Rightarrow> real \<Rightarrow> transform" where
  "Translate str tx ty tz =
     (let fmt = ''Translate-'' @ str tx @ ''-'' @ str ty @ ''-'' @ str tz
      in Transform_init (translate3d tx ty tz) None (Some fmt))"

definition Scale :: "(real \<Rightarrow> string) \<Rightarrow> real \<Rightarrow> real \<Rightarrow> real \<Rightarrow> center option \<Rightarrow> transform" where
  "Scale str sx sy sz c =
     (let center = (case c of None \<Rightarrow> Root | Some c' \<Rightarrow> c');
          fmt = ''Scale-'' @ str sx @ ''-'' @ str sy @ ''-'' @ str sz
      in Transform_init (scale3d sx sy sz) (Some center) (Some fmt))"

definition Rotate ::
  "(real \<Rightarrow> string) \<Rightarrow> (real \<Rightarrow> string) \<Rightarrow> real \<times> real \<times> real \<Rightarrow> real \<Rightarrow> center option \<Rightarrow> transform"
  where
  "Rotate str str4 n theta c =
     (let center = (case c of None \<Rightarrow> Root | Some c' \<Rightarrow> c');
          fmt = (case n of (n0, n1, n2) \<Rightarrow>
                   ''Rotate-'' @ str n0 @ ''-'' @ str n1 @ ''-'' @ str n2 @ ''-'' @ str4 theta)
      in Transform_init (rotate3d n theta) (Some center) (Some fmt))"

definition RotateX :: "(real \<Rightarrow> string) \<Rightarrow> real \<Rightarrow> center option \<Rightarrow> transform" where
  "RotateX str theta c =
     (let center = (case c of None \<Rightarrow> Root | Some c' \<Rightarrow> c')
      in Transform_init (rotate3d_x theta) (Some center) (Some (''RotateX-'' @ str theta)))"

definition RotateY :: "(real \<Rightarrow> string) \<Rightarrow> real \<Rightarrow> center option \<Rightarrow> transform" where
  "RotateY str theta c =
     (let center = (case c of None \<Rightarrow> Root | Some c' \<Rightarrow> c')
      in Transform_init (rotate3d_y theta) (Some center) (Some (''RotateX-'' @ str theta)))"

definition RotateZ :: "(real \<Rightarrow> string) \<Rightarrow> real \<Rightarrow> center option \<Rightarrow> transform" where
  "RotateZ str theta c =
     (let center = (case c of None \<Rightarrow> Root | Some c' \<Rightarrow> c')
      in Transform_init (rotate3d_z theta) (Some center) (Some (''RotateX-'' @ str theta)))"

text \<open>\<^verbatim>\<open>_Transform.__repr__\<close> returns the label.\<close>

definition repr :: "transform \<Rightarrow> string" where
  "repr tf = fmt tf"

text \<open>
  \<^verbatim>\<open>np.nonzero(x.ndata[pid] == -1)[0].item()\<close>: the indices of the nodes whose parent
  is the sentinel; \<^verbatim>\<open>.item()\<close> raises \<open>ValueError\<close> unless there is exactly one.
\<close>

definition root_index :: "int list \<Rightarrow> error + nat" where
  "root_index pid_col =
     (case filter (\<lambda>i. pid_col ! i = - 1) [0..<length pid_col] of
        [idx] \<Rightarrow> Inr idx
      | _ \<Rightarrow> Inl ValueError)"

text \<open>The \<^verbatim>\<open>match self.center\<close> statement of \<^verbatim>\<open>_Transform.__call__\<close>.\<close>

definition effective_tm :: "transform \<Rightarrow> real tree \<Rightarrow> error + mat4" where
  "effective_tm tf x =
     (if center tf = Root \<or> center tf = Soma then
        (case root_index (nd_pid x) of
           Inl e \<Rightarrow> Inl e
         | Inr idx \<Rightarrow>
             (case xyz x ! idx of (cx, cy, cz) \<Rightarrow>
                Inr (dot (dot (translate3d (- cx) (- cy) (- cz)) (tm tf))
                         (translate3d cx cy cz))))
      else Inr (tm tf))"

text \<open>
  \<^verbatim>\<open>_Transform.__call__\<close> read on values: the result is the copy of \<open>x\<close> with the three
  coordinate columns replaced by the columns of \<^verbatim>\<open>x.xyzw().dot(tm).T\<close>.
\<close>

definition transform_call :: "transform \<Rightarrow> real tree \<Rightarrow> error + real tree" where
  "transform_call tf x =
     (case effective_tm tf x of
        Inl e \<Rightarrow> Inl e
      | Inr m \<Rightarrow>
          (let xyzw' = map (\<lambda>p. vec_mat p m) (xyzw x);
               y = x
           in Inr (y\<lparr>nd_x := map col0 xyzw', nd_y := map col1 xyzw', nd_z := map col2 xyzw'\<rparr>)))"

text \<open>
  The same method read on a store of objects, to make the aliasing explicit: a reference
  is an index into the store. Modelled from the spec: \<^verbatim>\<open>DictSWC.copy\<close> is not among the
  sources; the spec has every call return a new, independently owned tree, so \<open>copy\<close>
  allocates a fresh object holding the values of the original. The three assignments
  \<^verbatim>\<open>y.ndata[...] = ...\<close> write to the object \<open>y\<close> refers to.
\<close>

type_synonym store = "real tree list"

definition copy :: "'a list \<Rightarrow> nat \<Rightarrow> nat \<times> 'a list" where
  "copy s a = (length s, s @ [s ! a])"

definition transform_call_store :: "transform \<Rightarrow> store \<Rightarrow> nat \<Rightarrow> error + nat \<times> store" where
  "transform_call_store tf s x =
     (case effective_tm tf (s ! x) of
        Inl e \<Rightarrow> Inl e
      | Inr m \<Rightarrow>
          (let xyzw' = map (\<lambda>p. vec_mat p m) (xyzw (s ! x))
           in (case copy s x of (y, s1) \<Rightarrow>
                 (let s2 = s1[y := (s1 ! y)\<lparr>nd_x := map col0 xyzw'\<rparr>];
                      s3 = s2[y := (s2 ! y)\<lparr>nd_y := map col1 xyzw'\<rparr>];
                      s4 = s3[y := (s3 ! y)\<lparr>nd_z := map col2 xyzw'\<rparr>]
                  in Inr (y, s4)))))"

section \<open>Normalizer (transforms/geometry.py)\<close>

text \<open>
  \<^verbatim>\<open>np.min\<close> and \<^verbatim>\<open>np.max\<close> raise \<open>ValueError\<close> on an empty array. The division
  of numpy arrays does not raise: a zero divisor gives \<^verbatim>\<open>inf\<close>, \<^verbatim>\<open>-inf\<close> or \<^verbatim>\<open>nan\<close>.
\<close>

definition np_min :: "real list \<Rightarrow> error + real" where
  "np_min vs = (case vs of [] \<Rightarrow> Inl ValueError | v # vs' \<Rightarrow> Inr (fold min vs' v))"

definition np_max :: "real list \<Rightarrow> error + real" where
  "np_max vs = (case vs of [] \<Rightarrow> Inl ValueError | v # vs' \<Rightarrow> Inr (fold max vs' v))"

definition np_div :: "real \<Rightarrow> real \<Rightarrow> npfloat" where
  "np_div a b = (if b = 0 then NonFinite else Finite (a / b))"

text \<open>The loop body: \<^verbatim>\<open>(vs - np.min(vs)) / np.max(vs)\<close>.\<close>

definition normalize_column :: "real list \<Rightarrow> error + npfloat list" where
  "normalize_column vs =
     (case np_min vs of
        Inl e \<Rightarrow> Inl e
      | Inr lo \<Rightarrow>
          (case np_max vs of
             Inl e \<Rightarrow> Inl e
           | Inr hi \<Rightarrow> Inr (map (\<lambda>v. np_div (v - lo) hi) vs)))"

text \<open>
  \<^verbatim>\<open>Normalizer.__call__\<close>: the loop over the keys x, y, z, r, unrolled in that order;
  every other field of the copy stays as it is.
\<close>

definition Normalizer_call :: "real tree \<Rightarrow> error + npfloat tree" where
  "Normalizer_call x =
     (case normalize_column (nd_x x) of
        Inl e \<Rightarrow> Inl e
      | Inr vx \<Rightarrow>
     (case normalize_column (nd_y x) of
        Inl e \<Rightarrow> Inl e
      | Inr vy \<Rightarrow>
     (case normalize_column (nd_z x) of
        Inl e \<Rightarrow> Inl e
      | Inr vz \<Rightarrow>
     (case normalize_column (nd_r x) of
        Inl e \<Rightarrow> Inl e
      | Inr vr \<Rightarrow>
          Inr \<lparr>nd_id = nd_id x, nd_type = nd_type x, nd_x = vx, nd_y = vy, nd_z = vz,
               nd_r = vr, nd_pid = nd_pid x, source = source x\<rparr>))))"

text \<open>
  \<^verbatim>\<open>Normalizer.__call__\<close> read on a store of objects. The objects are trees of float
  values; \<open>float_tree\<close> is a tree of real values as such an object. The loop reads each
  column from the copy and assigns the normalised column to the copy. On a column whose
  values are all finite the loop body is \<open>normalize_column\<close>. On a column that already
  holds a non-finite value numpy does not raise either; what IEEE arithmetic makes of it
  is not modelled and is the parameter \<open>ieee\<close>.
\<close>

definition float_tree :: "real tree \<Rightarrow> npfloat tree" where
  "float_tree t =
     \<lparr>nd_id = nd_id t, nd_type = nd_type t, nd_x = map Finite (nd_x t),
      nd_y = map Finite (nd_y t), nd_z = map Finite (nd_z t), nd_r = map Finite (nd_r t),
      nd_pid = nd_pid t, source = source t\<rparr>"

fun finite_values :: "npfloat list \<Rightarrow> real list option" where
  "finite_values [] = Some []"
| "finite_values (Finite v # vs) = map_option (Cons v) (finite_values vs)"
| "finite_values (NonFinite # vs) = None"

definition np_normalize :: "(npfloat list \<Rightarrow> npfloat list) \<Rightarrow> npfloat list \<Rightarrow> error + npfloat list"
  where
  "np_normalize ieee vs =
     (case finite_values vs of Some rs \<Rightarrow> normalize_column rs | None \<Rightarrow> Inr (ieee vs))"

definition Normalizer_call_store ::
  "(npfloat list \<Rightarrow> npfloat list) \<Rightarrow> npfloat tree list \<Rightarrow> nat
     \<Rightarrow> error + nat \<times> npfloat tree list" where
  "Normalizer_call_store ieee s x =
     (case copy s x of (new_tree, s0) \<Rightarrow>
     (case np_normalize ieee (nd_x (s0 ! new_tree)) of
        Inl e \<Rightarrow> Inl e
      | Inr vx \<Rightarrow> (let s1 = s0[new_tree := (s0 ! new_tree)\<lparr>nd_x := vx\<rparr>] in
     (case np_normalize ieee (nd_y (s1 ! new_tree)) of
        Inl e \<Rightarrow> Inl e
      | Inr vy \<Rightarrow> (let s2 = s1[new_tree := (s1 ! new_tree)\<lparr>nd_y := vy\<rparr>] in
     (case np_normalize ieee (nd_z (s2 ! new_tree)) of
        Inl e \<Rightarrow> Inl e
      | Inr vz \<Rightarrow> (let s3 = s2[new_tree := (s2 ! new_tree)\<lparr>nd_z := vz\<rparr>] in
     (case np_normalize ieee (nd_r (s3 ! new_tree)) of
        Inl e \<Rightarrow> Inl e
      | Inr vr \<Rightarrow> (let s4 = s3[new_tree := (s3 ! new_tree)\<lparr>nd_r := vr\<rparr>] in
          Inr (new_tree, s4))))))))))"

section \<open>float32 arithmetic\<close>

text \<open>
  The arrays of \<^verbatim>\<open>_Transform\<close> are \<^verbatim>\<open>np.float32\<close>: every product and every sum of a
  \<^verbatim>\<open>dot\<close> is rounded to a binary32 value. \<open>rnd32\<close> rounds a real to the nearest
  binary32 value, ties to even: 24 significant bits in the normal range, multiples of
  \<open>2^-149\<close> below it. \<open>ulp32\<close> finds the spacing of the binary32 values around a
  magnitude, starting from \<open>2^-23\<close>, the spacing on \<open>[1, 2)\<close>. Overflow to infinity is
  not modelled.
\<close>

fun ulp32 :: "nat \<Rightarrow> real \<Rightarrow> real \<Rightarrow> real" where
  "ulp32 0 a u = u"
| "ulp32 (Suc n) a u =
     (if 2 \<le> a then ulp32 n (a / 2) (u * 2)
      else if a < 1 \<and> 1 / 2 ^ 149 < u then ulp32 n (a * 2) (u / 2)
      else u)"

definition round_half_even :: "real \<Rightarrow> int" where
  "round_half_even q =
     (let f = \<lfloor>q\<rfloor>; d = q - real_of_int f
      in if d < 1 / 2 then f else if 1 / 2 < d then f + 1 else if even f then f else f + 1)"

definition rnd32 :: "real \<Rightarrow> real" where
  "rnd32 v =
     (if v = 0 then 0
      else (let u = ulp32 300 \<bar>v\<bar> (1 / 2 ^ 23)
            in sgn v * real_of_int (round_half_even (\<bar>v\<bar> / u)) * u))"

text \<open>
  \<^verbatim>\<open>dot\<close> with a rounding \<open>rnd\<close> after every product and every sum, the sum taken in
  the order of the columns; with no rounding this is \<open>vec_mat\<close> and \<open>dot\<close>.
\<close>

definition dot4 ::
  "(real \<Rightarrow> real) \<Rightarrow> real \<Rightarrow> real \<Rightarrow> real \<Rightarrow> real \<Rightarrow> real \<Rightarrow> real \<Rightarrow> real \<Rightarrow> real \<Rightarrow> real"
  where
  "dot4 rnd a b c d m0 m1 m2 m3 =
     rnd (rnd (rnd (rnd (a * m0) + rnd (b * m1)) + rnd (c * m2)) + rnd (d * m3))"

fun vec_mat_r :: "(real \<Rightarrow> real) \<Rightarrow> vec4 \<Rightarrow> mat4 \<Rightarrow> vec4" where
  "vec_mat_r rnd (a, b, c, d)
     ((m00, m01, m02, m03), (m10, m11, m12, m13), (m20, m21, m22, m23), (m30, m31, m32, m33)) =
     (dot4 rnd a b c d m00 m10 m20 m30,
      dot4 rnd a b c d m01 m11 m21 m31,
      dot4 rnd a b c d m02 m12 m22 m32,
      dot4 rnd a b c d m03 m13 m23 m33)"

fun dot_r :: "(real \<Rightarrow> real) \<Rightarrow> mat4 \<Rightarrow> mat4 \<Rightarrow> mat4" where
  "dot_r rnd (r0, r1, r2, r3) m =
     (vec_mat_r rnd r0 m, vec_mat_r rnd r1 m, vec_mat_r rnd r2 m, vec_mat_r rnd r3 m)"

text \<open>
  \<^verbatim>\<open>_Transform.__call__\<close> with the arithmetic of its arrays rounded by \<open>rnd\<close>:
  \<open>effective_tm\<close> and \<open>transform_call\<close> are the case of no rounding.
\<close>

definition effective_tm_r :: "(real \<Rightarrow> real) \<Rightarrow> transform \<Rightarrow> real tree \<Rightarrow> error + mat4" where
  "effective_tm_r rnd tf x =
     (if center tf = Root \<or> center tf = Soma then
        (case root_index (nd_pid x) of
           Inl e \<Rightarrow> Inl e
         | Inr idx \<Rightarrow>
             (case xyz x ! idx of (cx, cy, cz) \<Rightarrow>
                Inr (dot_r rnd (dot_r rnd (translate3d (- cx) (- cy) (- cz)) (tm tf))
                           (translate3d cx cy cz))))
      else Inr (tm tf))"

definition transform_call_r :: "(real \<Rightarrow> real) \<Rightarrow> transform \<Rightarrow> real tree \<Rightarrow> error + real tree"
  where
  "transform_call_r rnd tf x =
     (case effective_tm_r rnd tf x of
        Inl e \<Rightarrow> Inl e
      | Inr m \<Rightarrow>
          (let xyzw' = map (\<lambda>p. vec_mat_r rnd p m) (xyzw x);
               y = x
           in Inr (y\<lparr>nd_x := map col0 xyzw', nd_y := map col1 xyzw', nd_z := map col2 xyzw'\<rparr>)))"

section \<open>Branch tree (core/branch_tree.py)\<close>

text \<open>
  Modelled from the spec: \<^verbatim>\<open>Branch\<close> (core/branch.py) is not among the sources. A
  Branch is an ordered sequence of Nodes of the source tree; a Node carries its id, type,
  position, radius and parent id. \<open>tree_nodes\<close> reads the rows of a tree as Nodes.
  \<open>detach\<close> gives a detached copy: the same node sequence, owned by the copy.
\<close>

record node =
  nid :: int
  ntype :: int
  nx :: real
  ny :: real
  nz :: real
  nr :: real
  npid :: int

type_synonym branch = "node list"

definition tree_nodes :: "real tree \<Rightarrow> node list" where
  "tree_nodes t =
     map (\<lambda>i. \<lparr>nid = nd_id t ! i, ntype = nd_type t ! i, nx = nd_x t ! i, ny = nd_y t ! i,
               nz = nd_z t ! i, nr = nd_r t ! i, npid = nd_pid t ! i\<rparr>)
       [0..<length (nd_id t)]"

definition detach :: "branch \<Rightarrow> branch" where
  "detach br = br"

text \<open>
  \<^verbatim>\<open>BranchTree\<close> is a tree with the dictionary \<^verbatim>\<open>branches\<close>. A Python dictionary
  keeps its keys in insertion order, which \<^verbatim>\<open>get_branches\<close> observes, so it is an
  association list with distinct keys.
\<close>

record branch_tree = "real tree" +
  branches :: "(int \<times> branch list) list"

definition get_branches :: "branch_tree \<Rightarrow> branch list" where
  "get_branches bt = concat (map snd (branches bt))"

definition get_node_branches :: "branch_tree \<Rightarrow> int \<Rightarrow> error + branch list" where
  "get_node_branches bt idx =
     (case map_of (branches bt) idx of None \<Rightarrow> Inl KeyError | Some brs \<Rightarrow> Inr brs)"

text \<open>The Branches a dictionary files under a key: none when the key is absent.\<close>

definition filed :: "(int \<times> branch list) list \<Rightarrow> int \<Rightarrow> branch list" where
  "filed d k = (case map_of d k of None \<Rightarrow> [] | Some brs \<Rightarrow> brs)"

text \<open>\<^verbatim>\<open>d.setdefault(idx, [])\<close> and \<^verbatim>\<open>d[idx].append(b)\<close>.\<close>

definition setdefault :: "int \<Rightarrow> branch list \<Rightarrow> (int \<times> branch list) list \<Rightarrow> (int \<times> branch list) list"
  where
  "setdefault idx v d = (if idx \<in> fst ` set d then d else d @ [(idx, v)])"

definition dict_append :: "int \<Rightarrow> branch \<Rightarrow> (int \<times> branch list) list \<Rightarrow> (int \<times> branch list) list"
  where
  "dict_append idx b d = map (\<lambda>(k, brs). if k = idx then (k, brs @ [b]) else (k, brs)) d"

text \<open>
  The two list comprehensions of \<^verbatim>\<open>from_tree\<close> and the two \<^verbatim>\<open>insert(0, ...)\<close>:
  \<^verbatim>\<open>br[-1]\<close> raises \<open>IndexError\<close> on an empty Branch.
\<close>

definition sub_id_pid :: "branch list \<Rightarrow> error + int list \<times> int list" where
  "sub_id_pid brs =
     (if [] \<in> set brs then Inl IndexError
      else
        (let sub_id = map (\<lambda>br. nid (last br)) brs;
             sub_pid = map (\<lambda>br. nid (hd br)) brs
         in Inr (0 # sub_id, - 1 # sub_pid)))"

text \<open>
  Modelled from the spec: the Sub-Tree Builder \<^verbatim>\<open>to_sub_tree\<close> (core/tree_utils.py) is
  not among the sources. Given a tree, the ids to retain and their parents among the
  retained ids, it returns the reduced tree and the table from every original retained id
  to its new id. New ids are the compact range 0, 1, ... in the order the ids are
  supplied; the parent column is the supplied parent relation pushed through the table
  (the sentinel stays); the other fields of a retained node are those of its row in the
  source tree. A retained id that is no node of the source, or a parent that is neither
  the sentinel nor retained, is a lookup failure.
\<close>

fun index_of :: "int \<Rightarrow> int list \<Rightarrow> nat option" where
  "index_of v [] = None"
| "index_of v (u # us) = (if u = v then Some 0 else map_option Suc (index_of v us))"

fun mapM :: "('a \<Rightarrow> error + 'b) \<Rightarrow> 'a list \<Rightarrow> error + 'b list" where
  "mapM f [] = Inr []"
| "mapM f (x # xs) =
     (case f x of
        Inl e \<Rightarrow> Inl e
      | Inr y \<Rightarrow> (case mapM f xs of Inl e \<Rightarrow> Inl e | Inr ys \<Rightarrow> Inr (y # ys)))"

definition id_remap :: "int list \<Rightarrow> int \<Rightarrow> int option" where
  "id_remap sub_id i = map_option int (index_of i sub_id)"

definition to_sub_tree ::
  "real tree \<Rightarrow> int list \<Rightarrow> int list \<Rightarrow> error + real tree \<times> (int \<Rightarrow> int option)" where
  "to_sub_tree t sub_id sub_pid =
     (let id_map = id_remap sub_id
      in (case mapM (\<lambda>i. case index_of i (nd_id t) of None \<Rightarrow> Inl KeyError | Some k \<Rightarrow> Inr k)
                 sub_id of
            Inl e \<Rightarrow> Inl e
          | Inr rows \<Rightarrow>
              (case mapM (\<lambda>p. if p = - 1 then Inr (- 1)
                              else (case id_map p of None \<Rightarrow> Inl KeyError | Some q \<Rightarrow> Inr q))
                     sub_pid of
                 Inl e \<Rightarrow> Inl e
               | Inr new_pid \<Rightarrow>
                   Inr (\<lparr>nd_id = map int [0..<length sub_id],
                         nd_type = map (\<lambda>k. nd_type t ! k) rows,
                         nd_x = map (\<lambda>k. nd_x t ! k) rows,
                         nd_y = map (\<lambda>k. nd_y t ! k) rows,
                         nd_z = map (\<lambda>k. nd_z t ! k) rows,
                         nd_r = map (\<lambda>k. nd_r t ! k) rows,
                         nd_pid = new_pid,
                         source = source t\<rparr>, id_map))))"

text \<open>
  The loop of \<^verbatim>\<open>from_tree\<close> over the Branches: a miss of \<^verbatim>\<open>id_map\<close> raises
  \<open>KeyError\<close>.
\<close>

fun attach_branches ::
  "(int \<Rightarrow> int option) \<Rightarrow> branch list \<Rightarrow> (int \<times> branch list) list
     \<Rightarrow> error + (int \<times> branch list) list" where
  "attach_branches id_map [] d = Inr d"
| "attach_branches id_map (branch_raw # rest) d =
     (case branch_raw of
        [] \<Rightarrow> Inl IndexError
      | n0 # _ \<Rightarrow>
          (case id_map (nid n0) of
             None \<Rightarrow> Inl KeyError
           | Some idx \<Rightarrow>
               attach_branches id_map rest
                 (dict_append idx (detach branch_raw) (setdefault idx [] d))))"

text \<open>
  \<^verbatim>\<open>BranchTree.from_tree\<close>. The Branch Extractor \<^verbatim>\<open>Tree.get_branches\<close> is an
  external collaborator and not among the sources: it is the parameter
  \<open>tree_get_branches\<close>. \<^verbatim>\<open>BranchTree(len(sub_tree), **sub_tree.ndata)\<close> takes the
  columns of the reduced tree; the label is the one of the source tree.
\<close>

definition from_tree :: "(real tree \<Rightarrow> branch list) \<Rightarrow> real tree \<Rightarrow> error + branch_tree" where
  "from_tree tree_get_branches tree =
     (let brs = tree_get_branches tree
      in (case sub_id_pid brs of
            Inl e \<Rightarrow> Inl e
          | Inr (sub_id, sub_pid) \<Rightarrow>
              (case to_sub_tree tree sub_id sub_pid of
                 Inl e \<Rightarrow> Inl e
               | Inr (sub_tree, id_map) \<Rightarrow>
                   (case attach_branches id_map brs [] of
                      Inl e \<Rightarrow> Inl e
                    | Inr d \<Rightarrow>
                        Inr \<lparr>nd_id = nd_id sub_tree, nd_type = nd_type sub_tree,
                             nd_x = nd_x sub_tree, nd_y = nd_y sub_tree, nd_z = nd_z sub_tree,
                             nd_r = nd_r sub_tree, nd_pid = nd_pid sub_tree,
                             source = source tree, branches = d\<rparr>))))"

section \<open>The Node Tree invariant and the Branch Extractor contract\<close>

text \<open>
  The part of the spec's Node Tree invariant the proofs below use: the columns have one
  length, ids are unique, and exactly one node has the parent sentinel. \<open>root_ids\<close>
  lists the ids of the nodes whose parent is the sentinel and \<open>non_root_ids\<close> the ids
  of the others; \<open>n_children\<close> counts the nodes whose parent is a given id.
\<close>

definition root_ids :: "real tree \<Rightarrow> int list" where
  "root_ids t = map fst (filter (\<lambda>(i, p). p = - 1) (zip (nd_id t) (nd_pid t)))"

definition non_root_ids :: "real tree \<Rightarrow> int list" where
  "non_root_ids t = map fst (filter (\<lambda>(i, p). p \<noteq> - 1) (zip (nd_id t) (nd_pid t)))"

definition valid_tree :: "real tree \<Rightarrow> bool" where
  "valid_tree t \<longleftrightarrow> wf_tree t \<and> distinct (nd_id t) \<and> length (root_ids t) = 1"

definition n_children :: "real tree \<Rightarrow> int \<Rightarrow> nat" where
  "n_children t v = length (filter (\<lambda>p. p = v) (nd_pid t))"

definition branching_ids :: "real tree \<Rightarrow> int list" where
  "branching_ids t = filter (\<lambda>v. 2 \<le> n_children t v) (nd_id t)"

definition tip_ids :: "real tree \<Rightarrow> int list" where
  "tip_ids t = filter (\<lambda>v. n_children t v = 0) (nd_id t)"

text \<open>
  Modelled from the spec: the Branch Extractor contract. Every Branch has at least two
  nodes, all of them nodes of the tree; consecutive nodes are parent and child; every
  interior node has exactly one child; each end is the root, a branching node or a tip;
  and the Branches cover every parent-child edge exactly once. An edge is named by its
  child, since every node has one parent: the ids of the nodes after the first of each
  Branch are, without repetition, the ids of the non-root nodes.
\<close>

fun chain :: "branch \<Rightarrow> bool" where
  "chain (a # b # rest) = (npid b = nid a \<and> chain (b # rest))"
| "chain _ = True"

definition endpoint :: "real tree \<Rightarrow> node \<Rightarrow> bool" where
  "endpoint t v \<longleftrightarrow> npid v = - 1 \<or> 2 \<le> n_children t (nid v) \<or> n_children t (nid v) = 0"

definition branch_ok :: "real tree \<Rightarrow> branch \<Rightarrow> bool" where
  "branch_ok t br \<longleftrightarrow>
     2 \<le> length br \<and> set br \<subseteq> set (tree_nodes t) \<and> chain br \<and>
     (\<forall>v\<in>set (butlast (tl br)). n_children t (nid v) = 1) \<and>
     endpoint t (hd br) \<and> endpoint t (last br)"

definition edge_children :: "branch list \<Rightarrow> int list" where
  "edge_children brs = concat (map (\<lambda>br. map nid (tl br)) brs)"

definition branch_contract :: "real tree \<Rightarrow> branch list \<Rightarrow> bool" where
  "branch_contract t brs \<longleftrightarrow>
     (\<forall>br\<in>set brs. branch_ok t br) \<and>
     distinct (edge_children brs) \<and> set (edge_children brs) = set (non_root_ids t)"

section \<open>Example inputs\<close>

definition ex2 :: "real tree" where
  "ex2 = \<lparr>nd_id = [0, 1], nd_type = [1, 3], nd_x = [1, 2], nd_y = [- 2, - 1], nd_z = [3, 3],
          nd_r = [1, 2], nd_pid = [- 1, 0], source = ''a.swc''\<rparr>"

definition ex_pivot :: "real tree" where
  "ex_pivot = \<lparr>nd_id = [0, 1], nd_type = [1, 3], nd_x = [5, 6], nd_y = [0, 1], nd_z = [0, 0],
          nd_r = [1, 1], nd_pid = [- 1, 0], source = ''pivot.swc''\<rparr>"

definition ex_two_roots :: "real tree" where
  "ex_two_roots = \<lparr>nd_id = [0, 1], nd_type = [1, 1], nd_x = [5, 6], nd_y = [0, 1], nd_z = [0, 0],
          nd_r = [1, 1], nd_pid = [- 1, - 1], source = ''two.swc''\<rparr>"

definition str0 :: "real \<Rightarrow> string" where
  "str0 v = ''?''"

definition ex_no_root :: "real tree" where
  "ex_no_root = \<lparr>nd_id = [0, 1], nd_type = [1, 1], nd_x = [5, 6], nd_y = [0, 1], nd_z = [0, 0],
          nd_r = [1, 1], nd_pid = [1, 0], source = ''none.swc''\<rparr>"

text \<open>
  The five-node tree of the spec's concrete scenario, a root with two tips, and a
  two-node tree whose root has id 1, each with the Branches of its extraction.
\<close>

definition ex_chain5 :: "real tree" where
  "ex_chain5 = \<lparr>nd_id = [0, 1, 2, 3, 4], nd_type = [1, 3, 3, 3, 3], nd_x = [0, 1, 2, 3, 3],
          nd_y = [0, 0, 0, 1, - 1], nd_z = [0, 0, 0, 0, 0], nd_r = [1, 1, 1, 1, 1],
          nd_pid = [- 1, 0, 1, 2, 2], source = ''chain5.swc''\<rparr>"

definition ex_chain5_branches :: "branch list" where
  "ex_chain5_branches =
     [[tree_nodes ex_chain5 ! 0, tree_nodes ex_chain5 ! 1, tree_nodes ex_chain5 ! 2],
      [tree_nodes ex_chain5 ! 2, tree_nodes ex_chain5 ! 3],
      [tree_nodes ex_chain5 ! 2, tree_nodes ex_chain5 ! 4]]"

definition ex_fork :: "real tree" where
  "ex_fork = \<lparr>nd_id = [0, 1, 2], nd_type = [1, 3, 3], nd_x = [0, 1, 1], nd_y = [0, 1, - 1],
          nd_z = [0, 0, 0], nd_r = [1, 1, 1], nd_pid = [- 1, 0, 0], source = ''fork.swc''\<rparr>"

definition ex_fork_branches :: "branch list" where
  "ex_fork_branches =
     [[tree_nodes ex_fork ! 0, tree_nodes ex_fork ! 1],
      [tree_nodes ex_fork ! 0, tree_nodes ex_fork ! 2]]"

definition ex_root1 :: "real tree" where
  "ex_root1 = \<lparr>nd_id = [1, 2], nd_type = [1, 3], nd_x = [0, 1], nd_y = [0, 0],
          nd_z = [0, 0], nd_r = [1, 1], nd_pid = [- 1, 1], source = ''root1.swc''\<rparr>"

definition ex_root1_branches :: "branch list" where
  "ex_root1_branches = [[tree_nodes ex_root1 ! 0, tree_nodes ex_root1 ! 1]]"

text \<open>The extractors that return these Branches.\<close>

definition ex_chain5_get_branches :: "real tree \<Rightarrow> branch list" where
  "ex_chain5_get_branches t = ex_chain5_branches"

definition ex_fork_get_branches :: "real tree \<Rightarrow> branch list" where
  "ex_fork_get_branches t = ex_fork_branches"

text \<open>
  A tree of binary32 coordinates: the root sits at the binary32 value nearest to 0.1,
  \<open>13421773 / 2^27\<close>.
\<close>

definition ex_f32 :: "real tree" where
  "ex_f32 = \<lparr>nd_id = [0, 1], nd_type = [1, 3], nd_x = [13421773 / 134217728, 1],
          nd_y = [0, 0], nd_z = [0, 0], nd_r = [1, 1], nd_pid = [- 1, 0],
          source = ''f32.swc''\<rparr>"


text \<open>A stand-in for the IEEE behaviour that is not modelled.\<close>

definition ieee0 :: "npfloat list \<Rightarrow> npfloat list" where
  "ieee0 vs = map (\<lambda>v. NonFinite) vs"

section \<open>Transforms: lemmas\<close>

lemma length_filter_index:
  "length (filter (\<lambda>i. P (xs ! i)) [0..<length xs]) = length (filter P xs)"
proof -
  have "filter P xs = filter P (map (nth xs) [0..<length xs])"
    by (simp add: map_nth)
  also have "\<dots> = map (nth xs) (filter (\<lambda>i. P (xs ! i)) [0..<length xs])"
    by (simp add: filter_map comp_def)
  finally show ?thesis by simp
qed

lemma root_index_Inl_iff:
  "root_index p = Inl ValueError \<longleftrightarrow> length (filter (\<lambda>v. v = - 1) p) \<noteq> 1"
proof -
  let ?l = "filter (\<lambda>i. p ! i = - 1) [0..<length p]"
  have "length ?l = length (filter (\<lambda>v. v = - 1) p)"
    by (rule length_filter_index)
  moreover have "root_index p = Inl ValueError \<longleftrightarrow> length ?l \<noteq> 1"
    by (cases ?l; cases "tl ?l") (auto simp: root_index_def split: list.splits)
  ultimately show ?thesis by simp
qed

lemma root_index_InrD:
  assumes "root_index p = Inr idx"
  shows "idx < length p \<and> p ! idx = - 1 \<and> (\<forall>j<length p. p ! j = - 1 \<longrightarrow> j = idx)"
proof -
  let ?l = "filter (\<lambda>i. p ! i = - 1) [0..<length p]"
  from assms have l: "?l = [idx]"
    by (auto simp: root_index_def split: list.splits)
  then have "set ?l = {idx}" by simp
  then show ?thesis by auto
qed

lemma vec_mat_pivot:
  assumes "vec_mat (0, 0, 0, 1) m = (0, 0, 0, 1)"
  shows "vec_mat (cx, cy, cz, 1) (dot (dot (translate3d (- cx) (- cy) (- cz)) m) (translate3d cx cy cz))
         = (cx, cy, cz, 1)"
  using assms by (cases m rule: prod_cases4; cases "fst m" rule: prod_cases4) (auto simp: translate3d_def algebra_simps)

lemma Transform_init_simps:
  "tm (Transform_init m c f) = m"
  "center (Transform_init m (Some c') f) = c'"
  "center (Transform_init m None f) = Origin"
  "fmt (Transform_init m c (Some f')) = f'"
  by (simp_all add: Transform_init_def)

lemma scale3d_fixes_origin: "vec_mat (0, 0, 0, 1) (scale3d sx sy sz) = (0, 0, 0, 1)"
  by (simp add: scale3d_def)

lemma rotate3d_fixes_origin: "vec_mat (0, 0, 0, 1) (rotate3d n theta) = (0, 0, 0, 1)"
  by (cases n rule: prod_cases3) (simp add: rotate3d_def Let_def)

lemma raw_matrix_fixes_origin:
  assumes "tf = Scale str sx sy sz c \<or> tf = Rotate str str4 n theta c \<or>
           tf = RotateX str theta c \<or> tf = RotateY str theta c \<or> tf = RotateZ str theta c"
  shows "vec_mat (0, 0, 0, 1) (tm tf) = (0, 0, 0, 1)"
  using assms
  by (auto simp: Scale_def Rotate_def RotateX_def RotateY_def RotateZ_def Let_def
      Transform_init_simps scale3d_fixes_origin rotate3d_fixes_origin
      rotate3d_x_def rotate3d_y_def rotate3d_z_def)

lemma effective_tm_pivot:
  assumes "center tf = Root \<or> center tf = Soma" and "root_index (nd_pid x) = Inr idx"
    and "wf_tree x"
  shows "effective_tm tf x =
         Inr (dot (dot (translate3d (- (nd_x x ! idx)) (- (nd_y x ! idx)) (- (nd_z x ! idx))) (tm tf))
                  (translate3d (nd_x x ! idx) (nd_y x ! idx) (nd_z x ! idx)))"
proof -
  from root_index_InrD[OF assms(2)] assms(3) have "idx < length (nd_id x)"
    by (simp add: wf_tree_def)
  then have "xyz x ! idx = (nd_x x ! idx, nd_y x ! idx, nd_z x ! idx)"
    by (simp add: xyz_def)
  with assms(1,2) show ?thesis
    by (auto simp: effective_tm_def)
qed

lemma transform_call_Inr:
  assumes "effective_tm tf x = Inr m"
  shows "transform_call tf x =
         Inr (x\<lparr>nd_x := map (\<lambda>p. col0 (vec_mat p m)) (xyzw x),
                nd_y := map (\<lambda>p. col1 (vec_mat p m)) (xyzw x),
                nd_z := map (\<lambda>p. col2 (vec_mat p m)) (xyzw x)\<rparr>)"
  using assms by (simp add: transform_call_def Let_def comp_def)

lemma root_index_ex_pivot: "root_index (nd_pid ex_pivot) = Inr 0"
  by (simp add: root_index_def ex_pivot_def upt_rec)

lemma transform_call_store_eq:
  "transform_call_store tf s x =
     (case transform_call tf (s ! x) of Inl e \<Rightarrow> Inl e | Inr y \<Rightarrow> Inr (length s, s @ [y]))"
  by (cases "effective_tm tf (s ! x)")
     (simp_all add: transform_call_store_def transform_call_def copy_def Let_def)

lemma transform_call_frame:
  assumes "transform_call tf x = Inr y"
  shows "y = x\<lparr>nd_x := nd_x y, nd_y := nd_y y, nd_z := nd_z y\<rparr> \<and>
         length (nd_x y) = length (nd_id x) \<and> length (nd_y y) = length (nd_id x) \<and>
         length (nd_z y) = length (nd_id x)"
  using assms
  by (cases "effective_tm tf x") (auto simp: transform_call_def Let_def xyzw_def)

lemma length_normalize_column:
  "normalize_column vs = Inr ws \<Longrightarrow> length ws = length vs"
  by (auto simp: normalize_column_def split: sum.splits)

lemma normalize_column_Inr:
  "vs \<noteq> [] \<Longrightarrow> \<exists>ws. normalize_column vs = Inr ws"
  by (cases vs) (simp_all add: normalize_column_def np_min_def np_max_def)

lemma normalize_column_eq:
  assumes "vs \<noteq> []"
  shows "normalize_column vs = Inr (map (\<lambda>v. np_div (v - Min (set vs)) (Max (set vs))) vs)"
proof -
  from assms obtain v vs' where vs: "vs = v # vs'" by (cases vs) auto
  have "fold min vs' v = Min (set vs)" "fold max vs' v = Max (set vs)"
    unfolding vs by (simp_all only: Min.set_eq_fold Max.set_eq_fold)
  then show ?thesis
    by (simp add: normalize_column_def np_min_def np_max_def vs)
qed

lemma ulp32_numeral:
  "ulp32 (numeral k) a u =
     (if 2 \<le> a then ulp32 (pred_numeral k) (a / 2) (u * 2)
      else if a < 1 \<and> 1 / 2 ^ 149 < u then ulp32 (pred_numeral k) (a * 2) (u / 2)
      else u)"
  by (simp add: numeral_eq_Suc)

lemma rnd32_0: "rnd32 0 = 0"
  by (simp add: rnd32_def)

lemma rnd32_1: "rnd32 1 = 1"
  by (simp add: rnd32_def ulp32_numeral round_half_even_def Let_def)

lemma rnd32_3: "rnd32 3 = 3"
  by (simp add: rnd32_def ulp32_numeral round_half_even_def Let_def)

lemma vec_mat_r_exact: "vec_mat_r (\<lambda>v. v) p m = vec_mat p m"
  by (cases p rule: prod_cases4; cases m rule: prod_cases4;
      cases "fst m" rule: prod_cases4; cases "fst (snd m)" rule: prod_cases4;
      cases "fst (snd (snd m))" rule: prod_cases4; cases "snd (snd (snd m))" rule: prod_cases4)
     (simp add: dot4_def)

lemma dot_r_exact: "dot_r (\<lambda>v. v) a m = dot a m"
  by (cases a rule: prod_cases4) (simp add: vec_mat_r_exact)

lemma effective_tm_r_exact: "effective_tm_r (\<lambda>v. v) tf x = effective_tm tf x"
  by (simp add: effective_tm_r_def effective_tm_def dot_r_exact
      cong: sum.case_cong prod.case_cong)

lemma transform_call_r_exact: "transform_call_r (\<lambda>v. v) tf x = transform_call tf x"
  by (simp add: transform_call_r_def transform_call_def effective_tm_r_exact vec_mat_r_exact
      cong: sum.case_cong)

lemma effective_tm_r_pivot:
  assumes "center tf = Root \<or> center tf = Soma" and "root_index (nd_pid x) = Inr idx"
    and "wf_tree x"
  shows "effective_tm_r rnd tf x =
         Inr (dot_r rnd
                (dot_r rnd (translate3d (- (nd_x x ! idx)) (- (nd_y x ! idx)) (- (nd_z x ! idx)))
                   (tm tf))
                (translate3d (nd_x x ! idx) (nd_y x ! idx) (nd_z x ! idx)))"
proof -
  from root_index_InrD[OF assms(2)] assms(3) have "idx < length (nd_id x)"
    by (simp add: wf_tree_def)
  then have "xyz x ! idx = (nd_x x ! idx, nd_y x ! idx, nd_z x ! idx)"
    by (simp add: xyz_def)
  with assms(1,2) show ?thesis
    by (auto simp: effective_tm_r_def)
qed

lemma transform_call_r_Inr:
  assumes "effective_tm_r rnd tf x = Inr m"
  shows "transform_call_r rnd tf x =
         Inr (x\<lparr>nd_x := map (\<lambda>p. col0 (vec_mat_r rnd p m)) (xyzw x),
                nd_y := map (\<lambda>p. col1 (vec_mat_r rnd p m)) (xyzw x),
                nd_z := map (\<lambda>p. col2 (vec_mat_r rnd p m)) (xyzw x)\<rparr>)"
  using assms by (simp add: transform_call_r_def Let_def comp_def)

lemma ex_f32_tm:
  "effective_tm_r rnd32 (Scale str0 3 3 3 None) ex_f32 =
     Inr ((3, 0, 0, 0), (0, 3, 0, 0), (0, 0, 3, 0), (- (6710887 / 33554432), 0, 0, 1))"
  by (simp add: effective_tm_r_def root_index_def Scale_def Transform_init_def ex_f32_def
      xyz_def upt_rec translate3d_def scale3d_def dot4_def rnd32_0 rnd32_1 rnd32_3)
    (simp add: rnd32_def ulp32_numeral round_half_even_def Let_def)

lemma ex_f32_root_row:
  "vec_mat_r rnd32 (13421773 / 134217728, 0, 0, 1)
     ((3, 0, 0, 0), (0, 3, 0, 0), (0, 0, 3, 0), (- (6710887 / 33554432), 0, 0, 1)) =
   (3355443 / 33554432, 0, 0, 1)"
  by (simp add: dot4_def rnd32_0 rnd32_1)
    (simp add: rnd32_def ulp32_numeral round_half_even_def Let_def)

lemma transform_frame_value:
  "(x < length s \<and> transform_call_store tf s x = Inr (y, s') \<longrightarrow>
      y = length s \<and> length s' = Suc (length s) \<and> (\<forall>a<length s. s' ! a = s ! a) \<and>
      transform_call tf (s ! x) = Inr (s' ! y) \<and>
      s' ! y = (s ! x)\<lparr>nd_x := nd_x (s' ! y), nd_y := nd_y (s' ! y), nd_z := nd_z (s' ! y)\<rparr> \<and>
      tree_len (s' ! y) = tree_len (s ! x) \<and> nd_id (s' ! y) = nd_id (s ! x) \<and>
      nd_pid (s' ! y) = nd_pid (s ! x) \<and> nd_r (s' ! y) = nd_r (s ! x) \<and>
      (wf_tree (s ! x) \<longrightarrow> wf_tree (s' ! y))) \<and>
   (center tf = Origin \<or> (\<exists>idx. root_index (nd_pid (s ! x)) = Inr idx) \<longrightarrow>
      (\<exists>y s'. transform_call_store tf s x = Inr (y, s'))) \<and>
   (Normalizer_call t = Inr t' \<longrightarrow>
      tree_len t' = tree_len t \<and> nd_id t' = nd_id t \<and> nd_pid t' = nd_pid t \<and>
      nd_type t' = nd_type t \<and> source t' = source t \<and>
      normalize_column (nd_r t) = Inr (nd_r t') \<and>
      (wf_tree t \<longrightarrow> wf_tree t')) \<and>
   (wf_tree t \<and> nd_id t \<noteq> [] \<longrightarrow> (\<exists>t'. Normalizer_call t = Inr t'))"
proof (intro conjI impI)
  assume a: "x < length s \<and> transform_call_store tf s x = Inr (y, s')"
  then obtain z where z: "transform_call tf (s ! x) = Inr z" and y: "y = length s"
    and s': "s' = s @ [z]"
    by (auto simp: transform_call_store_eq split: sum.splits)
  note fr = transform_call_frame[OF z]
  show "y = length s" by (rule y)
  show "length s' = Suc (length s)" by (simp add: s')
  show "\<forall>a<length s. s' ! a = s ! a" by (simp add: s' nth_append)
  have zy: "s' ! y = z" by (simp add: s' y)
  show "transform_call tf (s ! x) = Inr (s' ! y)" by (simp add: z zy)
  show "s' ! y = (s ! x)\<lparr>nd_x := nd_x (s' ! y), nd_y := nd_y (s' ! y), nd_z := nd_z (s' ! y)\<rparr>"
    using fr by (simp add: zy)
  have sel: "nd_id z = nd_id (s ! x)" "nd_pid z = nd_pid (s ! x)" "nd_r z = nd_r (s ! x)"
    "nd_type z = nd_type (s ! x)"
    by (subst conjunct1[OF fr], simp)+
  show "tree_len (s' ! y) = tree_len (s ! x)" by (simp add: zy tree_len_def sel)
  show "nd_id (s' ! y) = nd_id (s ! x)" by (simp add: zy sel)
  show "nd_pid (s' ! y) = nd_pid (s ! x)" by (simp add: zy sel)
  show "nd_r (s' ! y) = nd_r (s ! x)" by (simp add: zy sel)
  show "wf_tree (s' ! y)" if "wf_tree (s ! x)"
    using that fr by (simp add: zy wf_tree_def sel)
next
  assume "center tf = Origin \<or> (\<exists>idx. root_index (nd_pid (s ! x)) = Inr idx)"
  then have "\<exists>m. effective_tm tf (s ! x) = Inr m"
    by (auto simp: effective_tm_def simp del: split_paired_Ex split: prod.splits)
  then show "\<exists>y s'. transform_call_store tf s x = Inr (y, s')"
    by (auto simp: transform_call_store_eq transform_call_def Let_def)
next
  assume n: "Normalizer_call t = Inr t'"
  then obtain vx vy vz vr where c: "normalize_column (nd_x t) = Inr vx"
    "normalize_column (nd_y t) = Inr vy" "normalize_column (nd_z t) = Inr vz"
    "normalize_column (nd_r t) = Inr vr"
    and t': "t' = \<lparr>nd_id = nd_id t, nd_type = nd_type t, nd_x = vx, nd_y = vy, nd_z = vz,
               nd_r = vr, nd_pid = nd_pid t, source = source t\<rparr>"
    by (auto simp: Normalizer_call_def split: sum.splits)
  show "tree_len t' = tree_len t" by (simp add: t' tree_len_def)
  show "nd_id t' = nd_id t" by (simp add: t')
  show "nd_pid t' = nd_pid t" by (simp add: t')
  show "nd_type t' = nd_type t" by (simp add: t')
  show "source t' = source t" by (simp add: t')
  show "normalize_column (nd_r t) = Inr (nd_r t')" by (simp add: t' c)
  show "wf_tree t'" if "wf_tree t"
    using that c[THEN length_normalize_column] by (simp add: t' wf_tree_def)
next
  assume "wf_tree t \<and> nd_id t \<noteq> []"
  then have "nd_x t \<noteq> []" "nd_y t \<noteq> []" "nd_z t \<noteq> []" "nd_r t \<noteq> []"
    by (auto simp: wf_tree_def)
  from this[THEN normalize_column_Inr] show "\<exists>t'. Normalizer_call t = Inr t'"
    by (auto simp: Normalizer_call_def)
qed

lemma finite_values_map: "finite_values (map Finite vs) = Some vs"
  by (induction vs) simp_all

lemma finite_values_length: "finite_values vs = Some rs \<Longrightarrow> length rs = length vs"
proof (induction vs arbitrary: rs)
  case Nil
  then show ?case by simp
next
  case (Cons v vs)
  then show ?case by (cases v) auto
qed

lemma np_normalize_finite: "np_normalize ieee (map Finite vs) = normalize_column vs"
  by (simp add: np_normalize_def finite_values_map)

lemma np_normalize_Inr:
  assumes "vs \<noteq> []"
  shows "\<exists>ws. np_normalize ieee vs = Inr ws"
proof (cases "finite_values vs")
  case None
  then show ?thesis by (simp add: np_normalize_def)
next
  case (Some rs)
  from finite_values_length[OF Some] assms have "rs \<noteq> []" by auto
  from normalize_column_Inr[OF this] Some show ?thesis
    by (simp add: np_normalize_def)
qed

lemma Normalizer_call_store_InrD:
  assumes "x < length s" and "Normalizer_call_store ieee s x = Inr (y, s')"
  shows "\<exists>vx vy vz vr.
           y = length s \<and>
           s' = s @ [(s ! x)\<lparr>nd_x := vx, nd_y := vy, nd_z := vz, nd_r := vr\<rparr>] \<and>
           np_normalize ieee (nd_x (s ! x)) = Inr vx \<and>
           np_normalize ieee (nd_y (s ! x)) = Inr vy \<and>
           np_normalize ieee (nd_z (s ! x)) = Inr vz \<and>
           np_normalize ieee (nd_r (s ! x)) = Inr vr"
  using assms
  by (auto simp: Normalizer_call_store_def copy_def Let_def nth_append split: sum.splits)

lemma Normalizer_call_store_Inr:
  assumes "x < length s"
    and "np_normalize ieee (nd_x (s ! x)) = Inr vx"
    and "np_normalize ieee (nd_y (s ! x)) = Inr vy"
    and "np_normalize ieee (nd_z (s ! x)) = Inr vz"
    and "np_normalize ieee (nd_r (s ! x)) = Inr vr"
  shows "Normalizer_call_store ieee s x =
         Inr (length s, s @ [(s ! x)\<lparr>nd_x := vx, nd_y := vy, nd_z := vz, nd_r := vr\<rparr>])"
  using assms
  by (simp add: Normalizer_call_store_def copy_def Let_def nth_append)

lemma Normalizer_call_store_float:
  assumes "x < length s" and "s ! x = float_tree t"
  shows "Normalizer_call_store ieee s x =
         (case Normalizer_call t of Inl e \<Rightarrow> Inl e | Inr t' \<Rightarrow> Inr (length s, s @ [t']))"
  using assms
  by (simp add: Normalizer_call_store_def copy_def Let_def nth_append float_tree_def
      np_normalize_finite Normalizer_call_def split: sum.splits)

lemma Normalizer_store_frame:
  "(x < length s \<and> Normalizer_call_store ieee s x = Inr (y, s') \<longrightarrow>
      y = length s \<and> length s' = Suc (length s) \<and> (\<forall>a<length s. s' ! a = s ! a) \<and>
      s' ! y = (s ! x)\<lparr>nd_x := nd_x (s' ! y), nd_y := nd_y (s' ! y), nd_z := nd_z (s' ! y),
                      nd_r := nd_r (s' ! y)\<rparr> \<and>
      tree_len (s' ! y) = tree_len (s ! x) \<and> nd_id (s' ! y) = nd_id (s ! x) \<and>
      nd_pid (s' ! y) = nd_pid (s ! x)) \<and>
   (x < length s \<and> s ! x = float_tree t \<longrightarrow>
      Normalizer_call_store ieee s x =
        (case Normalizer_call t of Inl e \<Rightarrow> Inl e | Inr t' \<Rightarrow> Inr (length s, s @ [t']))) \<and>
   (x < length s \<and> wf_tree (s ! x) \<and> nd_id (s ! x) \<noteq> [] \<longrightarrow>
      (\<exists>y s'. Normalizer_call_store ieee s x = Inr (y, s')))"
proof (intro conjI impI)
  assume a: "x < length s \<and> Normalizer_call_store ieee s x = Inr (y, s')"
  then have x: "x < length s" and n: "Normalizer_call_store ieee s x = Inr (y, s')"
    by simp_all
  from Normalizer_call_store_InrD[OF x n] obtain vx vy vz vr where y: "y = length s"
    and s': "s' = s @ [(s ! x)\<lparr>nd_x := vx, nd_y := vy, nd_z := vz, nd_r := vr\<rparr>]"
    by blast
  show "y = length s" by (rule y)
  show "length s' = Suc (length s)" by (simp add: s')
  show "\<forall>a<length s. s' ! a = s ! a" by (simp add: s' nth_append)
  have zy: "s' ! y = (s ! x)\<lparr>nd_x := vx, nd_y := vy, nd_z := vz, nd_r := vr\<rparr>"
    by (simp add: s' y)
  show "s' ! y = (s ! x)\<lparr>nd_x := nd_x (s' ! y), nd_y := nd_y (s' ! y), nd_z := nd_z (s' ! y),
                      nd_r := nd_r (s' ! y)\<rparr>"
    by (simp add: zy)
  show "tree_len (s' ! y) = tree_len (s ! x)" by (simp add: zy tree_len_def)
  show "nd_id (s' ! y) = nd_id (s ! x)" by (simp add: zy)
  show "nd_pid (s' ! y) = nd_pid (s ! x)" by (simp add: zy)
next
  assume "x < length s \<and> s ! x = float_tree t"
  then show "Normalizer_call_store ieee s x =
        (case Normalizer_call t of Inl e \<Rightarrow> Inl e | Inr t' \<Rightarrow> Inr (length s, s @ [t']))"
    by (simp add: Normalizer_call_store_float)
next
  assume a: "x < length s \<and> wf_tree (s ! x) \<and> nd_id (s ! x) \<noteq> []"
  then have "nd_x (s ! x) \<noteq> []" "nd_y (s ! x) \<noteq> []" "nd_z (s ! x) \<noteq> []" "nd_r (s ! x) \<noteq> []"
    by (auto simp: wf_tree_def)
  from this[THEN np_normalize_Inr, of ieee] obtain vx vy vz vr where
    "np_normalize ieee (nd_x (s ! x)) = Inr vx" "np_normalize ieee (nd_y (s ! x)) = Inr vy"
    "np_normalize ieee (nd_z (s ! x)) = Inr vz" "np_normalize ieee (nd_r (s ! x)) = Inr vr"
    by blast
  from Normalizer_call_store_Inr[OF _ this] a
  show "\<exists>y s'. Normalizer_call_store ieee s x = Inr (y, s')"
    by blast
qed

section \<open>Transforms: claims\<close>

text \<open>
  C1 (amended). For a Scale, Rotate, RotateX, RotateY or RotateZ transform whose pivot mode
  is \<^verbatim>\<open>root\<close> or \<^verbatim>\<open>soma\<close>, applied to a well-formed tree with exactly one node whose
  parent is \<open>-1\<close> (at index \<open>idx\<close>, position \<open>c\<close>): whatever the rounding of the
  arithmetic, the call returns, the effective matrix is \<open>m = T(-c) . M_raw . T(c)\<close>, and
  the position columns of the result are those of the rows \<open>[x, y, z, 1] . m\<close>, one for
  every node. In exact arithmetic, moreover, the root's row is a fixed point of \<open>m\<close> and
  the root's position in the result is \<open>c\<close>. The translation matrix is the one of the
  spec's row-vector convention.
\<close>

theorem root_pivot_applied:
  assumes "tf = Scale str sx sy sz c \<or> tf = Rotate str str4 n theta c \<or>
           tf = RotateX str theta c \<or> tf = RotateY str theta c \<or> tf = RotateZ str theta c"
    and "center tf = Root \<or> center tf = Soma"
    and "wf_tree x"
    and "root_index (nd_pid x) = Inr idx"
    and "m = dot_r rnd
               (dot_r rnd (translate3d (- (nd_x x ! idx)) (- (nd_y x ! idx)) (- (nd_z x ! idx)))
                  (tm tf))
               (translate3d (nd_x x ! idx) (nd_y x ! idx) (nd_z x ! idx))"
  shows "effective_tm_r rnd tf x = Inr m \<and>
         transform_call_r rnd tf x =
           Inr (x\<lparr>nd_x := map (\<lambda>p. col0 (vec_mat_r rnd p m)) (xyzw x),
                  nd_y := map (\<lambda>p. col1 (vec_mat_r rnd p m)) (xyzw x),
                  nd_z := map (\<lambda>p. col2 (vec_mat_r rnd p m)) (xyzw x)\<rparr>) \<and>
         (rnd = (\<lambda>v. v) \<longrightarrow>
            m = dot (dot (translate3d (- (nd_x x ! idx)) (- (nd_y x ! idx)) (- (nd_z x ! idx)))
                       (tm tf))
                    (translate3d (nd_x x ! idx) (nd_y x ! idx) (nd_z x ! idx)) \<and>
            effective_tm tf x = Inr m \<and>
            transform_call tf x =
              Inr (x\<lparr>nd_x := map (\<lambda>p. col0 (vec_mat p m)) (xyzw x),
                     nd_y := map (\<lambda>p. col1 (vec_mat p m)) (xyzw x),
                     nd_z := map (\<lambda>p. col2 (vec_mat p m)) (xyzw x)\<rparr>) \<and>
            vec_mat (xyzw x ! idx) m = xyzw x ! idx \<and>
            (\<exists>y. transform_call tf x = Inr y \<and>
                 nd_x y ! idx = nd_x x ! idx \<and> nd_y y ! idx = nd_y x ! idx \<and>
                 nd_z y ! idx = nd_z x ! idx))"
proof -
  let ?e = "dot (dot (translate3d (- (nd_x x ! idx)) (- (nd_y x ! idx)) (- (nd_z x ! idx)))
                         (tm tf))
                      (translate3d (nd_x x ! idx) (nd_y x ! idx) (nd_z x ! idx))"
  have eff: "effective_tm_r rnd tf x = Inr m"
    unfolding assms(5) using assms(2,4,3) by (rule effective_tm_r_pivot)
  note call = transform_call_r_Inr[OF eff]
  have exact: "m = ?e \<and> effective_tm tf x = Inr m \<and>
              transform_call tf x =
                Inr (x\<lparr>nd_x := map (\<lambda>p. col0 (vec_mat p m)) (xyzw x),
                       nd_y := map (\<lambda>p. col1 (vec_mat p m)) (xyzw x),
                       nd_z := map (\<lambda>p. col2 (vec_mat p m)) (xyzw x)\<rparr>) \<and>
              vec_mat (xyzw x ! idx) m = xyzw x ! idx \<and>
              (\<exists>y. transform_call tf x = Inr y \<and>
                   nd_x y ! idx = nd_x x ! idx \<and> nd_y y ! idx = nd_y x ! idx \<and>
                   nd_z y ! idx = nd_z x ! idx)"
    if r: "rnd = (\<lambda>v. v)"
  proof -
    have me: "m = ?e"
      by (simp add: assms(5) r dot_r_exact)
    have eff': "effective_tm tf x = Inr m"
      unfolding me using assms(2,4,3) by (rule effective_tm_pivot)
    note call' = transform_call_Inr[OF eff']
    from root_index_InrD[OF assms(4)] assms(3) have idx: "idx < length (nd_id x)"
      by (simp add: wf_tree_def)
    then have row: "xyzw x ! idx = (nd_x x ! idx, nd_y x ! idx, nd_z x ! idx, 1)"
      and len: "idx < length (xyzw x)"
      by (simp_all add: xyzw_def)
    have fixd: "vec_mat (xyzw x ! idx) m = xyzw x ! idx"
      unfolding me row using raw_matrix_fixes_origin[OF assms(1)] by (rule vec_mat_pivot)
    have "\<exists>y. transform_call tf x = Inr y \<and>
                   nd_x y ! idx = nd_x x ! idx \<and> nd_y y ! idx = nd_y x ! idx \<and>
                   nd_z y ! idx = nd_z x ! idx"
      using call' len fixd row by simp
    with me eff' call' fixd show ?thesis by blast
  qed
  from eff call exact show ?thesis by blast
qed

theorem root_pivot_applied_witness:
  "wf_tree ex_pivot \<and> root_index (nd_pid ex_pivot) = Inr 0 \<and>
   center (Scale str0 2 3 4 None) = Root \<and>
   effective_tm (Scale str0 2 3 4 None) ex_pivot =
     Inr ((2, 0, 0, 0), (0, 3, 0, 0), (0, 0, 4, 0), (- 5, 0, 0, 1)) \<and>
   transform_call (Scale str0 2 3 4 None) ex_pivot =
     Inr (ex_pivot\<lparr>nd_x := [5, 7], nd_y := [0, 3], nd_z := [0, 0]\<rparr>)"
proof -
  let ?m = "((2, 0, 0, 0), (0, 3, 0, 0), (0, 0, 4, 0), (- 5, 0, 0, 1)) :: mat4"
  have wf: "wf_tree ex_pivot"
    by (simp add: wf_tree_def ex_pivot_def)
  have c: "center (Scale str0 2 3 4 None) = Root \<or> center (Scale str0 2 3 4 None) = Soma"
    by (simp add: Scale_def Transform_init_def)
  have v: "Scale str0 2 3 4 None = Scale str0 2 3 4 None \<or>
           Scale str0 2 3 4 None = Rotate str0 str0 (0, 0, 1) 0 None \<or>
           Scale str0 2 3 4 None = RotateX str0 0 None \<or>
           Scale str0 2 3 4 None = RotateY str0 0 None \<or>
           Scale str0 2 3 4 None = RotateZ str0 0 None"
    by simp
  have m: "?m = dot_r (\<lambda>v. v)
               (dot_r (\<lambda>v. v)
                  (translate3d (- (nd_x ex_pivot ! 0)) (- (nd_y ex_pivot ! 0))
                     (- (nd_z ex_pivot ! 0)))
                  (tm (Scale str0 2 3 4 None)))
               (translate3d (nd_x ex_pivot ! 0) (nd_y ex_pivot ! 0) (nd_z ex_pivot ! 0))"
    by (simp add: ex_pivot_def Scale_def Transform_init_def translate3d_def scale3d_def
        dot4_def)
  have x: "xyzw ex_pivot = [(5, 0, 0, 1), (6, 1, 0, 1)]"
    by (simp add: xyzw_def ex_pivot_def upt_rec)
  from root_pivot_applied[OF v c wf root_index_ex_pivot m]
  have "effective_tm (Scale str0 2 3 4 None) ex_pivot = Inr ?m"
    and "transform_call (Scale str0 2 3 4 None) ex_pivot =
          Inr (ex_pivot\<lparr>nd_x := map (\<lambda>p. col0 (vec_mat p ?m)) (xyzw ex_pivot),
                 nd_y := map (\<lambda>p. col1 (vec_mat p ?m)) (xyzw ex_pivot),
                 nd_z := map (\<lambda>p. col2 (vec_mat p ?m)) (xyzw ex_pivot)\<rparr>)"
    by simp_all
  then have "effective_tm (Scale str0 2 3 4 None) ex_pivot = Inr ?m \<and>
     transform_call (Scale str0 2 3 4 None) ex_pivot =
     Inr (ex_pivot\<lparr>nd_x := [5, 7], nd_y := [0, 3], nd_z := [0, 0]\<rparr>)"
    by (simp add: x)
  with wf root_index_ex_pivot c show ?thesis
    by (simp add: Scale_def Transform_init_def)
qed

text \<open>
  C1 as stated fails in float32 arithmetic: for the tree \<open>ex_f32\<close>, whose root sits at the
  binary32 value \<open>13421773 / 2^27\<close>, and Scale by 3 about the root, the effective matrix
  has the rounded translation \<open>- 26843548 / 2^27\<close> and the root lands on
  \<open>13421772 / 2^27\<close>, one unit in the last place below where it was.
\<close>

theorem root_moves_in_float32:
  "wf_tree ex_f32 \<and> root_index (nd_pid ex_f32) = Inr 0 \<and>
   center (Scale str0 3 3 3 None) = Root \<and>
   rnd32 (nd_x ex_f32 ! 0) = nd_x ex_f32 ! 0 \<and>
   \<not> isl (transform_call_r rnd32 (Scale str0 3 3 3 None) ex_f32) \<and>
   nd_x ex_f32 ! 0 = 13421773 / 134217728 \<and>
   nd_x (projr (transform_call_r rnd32 (Scale str0 3 3 3 None) ex_f32)) ! 0 =
     13421772 / 134217728"
proof -
  have wf: "wf_tree ex_f32"
    by (simp add: wf_tree_def ex_f32_def)
  have ri: "root_index (nd_pid ex_f32) = Inr 0"
    by (simp add: root_index_def ex_f32_def upt_rec)
  have c: "center (Scale str0 3 3 3 None) = Root"
    by (simp add: Scale_def Transform_init_def)
  have x0: "nd_x ex_f32 ! 0 = 13421773 / 134217728"
    by (simp add: ex_f32_def)
  have "rnd32 (13421773 / 134217728) = 13421773 / 134217728"
    by (simp add: rnd32_def ulp32_numeral round_half_even_def Let_def)
  then have r: "rnd32 (nd_x ex_f32 ! 0) = nd_x ex_f32 ! 0"
    by (simp only: x0)
  have xs: "xyzw ex_f32 = [(13421773 / 134217728, 0, 0, 1), (1, 0, 0, 1)]"
    by (simp add: xyzw_def ex_f32_def upt_rec)
  from transform_call_r_Inr[OF ex_f32_tm]
  have res: "\<not> isl (transform_call_r rnd32 (Scale str0 3 3 3 None) ex_f32)"
    and "nd_x (projr (transform_call_r rnd32 (Scale str0 3 3 3 None) ex_f32)) ! 0 =
          3355443 / 33554432"
    by (simp_all add: xs ex_f32_root_row del: vec_mat_r.simps)
  moreover have "(3355443 / 33554432 :: real) = 13421772 / 134217728"
    by simp
  ultimately have mv: "nd_x (projr (transform_call_r rnd32 (Scale str0 3 3 3 None) ex_f32)) ! 0 =
          13421772 / 134217728"
    by (simp only:)
  from wf ri c r res x0 mv show ?thesis
    by (intro conjI)
qed

text \<open>
  C8. When the number of nodes whose parent is \<open>-1\<close> is not one (none, or more than
  one), a transform whose pivot mode is \<^verbatim>\<open>root\<close> or \<^verbatim>\<open>soma\<close> fails: \<^verbatim>\<open>.item()\<close>
  raises \<open>ValueError\<close>, which is the failure the spec calls AmbiguousRootError. A
  transform whose pivot mode is \<^verbatim>\<open>origin\<close> does no root lookup: on a well-formed tree
  it applies its raw matrix and returns, whatever the parent column holds.
\<close>

theorem ambiguous_root_fails:
  "((center tf = Root \<or> center tf = Soma) \<and> length (filter (\<lambda>p. p = - 1) (nd_pid x)) \<noteq> 1
      \<longrightarrow> effective_tm tf x = Inl ValueError \<and> transform_call tf x = Inl ValueError) \<and>
   (center tf = Origin \<and> wf_tree x
      \<longrightarrow> effective_tm tf x = Inr (tm tf) \<and>
          transform_call tf x =
            Inr (x\<lparr>nd_x := map (\<lambda>p. col0 (vec_mat p (tm tf))) (xyzw x),
                   nd_y := map (\<lambda>p. col1 (vec_mat p (tm tf))) (xyzw x),
                   nd_z := map (\<lambda>p. col2 (vec_mat p (tm tf))) (xyzw x)\<rparr>))"
proof (intro conjI impI)
  assume a: "(center tf = Root \<or> center tf = Soma) \<and>
             length (filter (\<lambda>p. p = - 1) (nd_pid x)) \<noteq> 1"
  then have "root_index (nd_pid x) = Inl ValueError"
    by (simp add: root_index_Inl_iff)
  with a show e: "effective_tm tf x = Inl ValueError"
    by (auto simp: effective_tm_def)
  then show "transform_call tf x = Inl ValueError"
    by (simp add: transform_call_def)
next
  assume "center tf = Origin \<and> wf_tree x"
  then show e: "effective_tm tf x = Inr (tm tf)"
    by (simp add: effective_tm_def)
  then show "transform_call tf x =
            Inr (x\<lparr>nd_x := map (\<lambda>p. col0 (vec_mat p (tm tf))) (xyzw x),
                   nd_y := map (\<lambda>p. col1 (vec_mat p (tm tf))) (xyzw x),
                   nd_z := map (\<lambda>p. col2 (vec_mat p (tm tf))) (xyzw x)\<rparr>)"
    by (rule transform_call_Inr)
qed

theorem ambiguous_root_fails_witness:
  "transform_call (Scale str0 2 3 4 (Some Root)) ex_two_roots = Inl ValueError \<and>
   transform_call (RotateZ str0 1 (Some Soma)) ex_no_root = Inl ValueError \<and>
   transform_call (Translate str0 1 0 0) ex_two_roots =
     Inr (ex_two_roots\<lparr>nd_x := [6, 7], nd_y := [0, 1], nd_z := [0, 0]\<rparr>)"
proof -
  have 1: "transform_call (Scale str0 2 3 4 (Some Root)) ex_two_roots = Inl ValueError"
    using ambiguous_root_fails[of "Scale str0 2 3 4 (Some Root)" ex_two_roots]
    by (simp add: Scale_def Transform_init_def ex_two_roots_def)
  have 2: "transform_call (RotateZ str0 1 (Some Soma)) ex_no_root = Inl ValueError"
    using ambiguous_root_fails[of "RotateZ str0 1 (Some Soma)" ex_no_root]
    by (simp add: RotateZ_def Transform_init_def ex_no_root_def)
  have 3: "transform_call (Translate str0 1 0 0) ex_two_roots =
     Inr (ex_two_roots\<lparr>nd_x := [6, 7], nd_y := [0, 1], nd_z := [0, 0]\<rparr>)"
    using ambiguous_root_fails[of "Translate str0 1 0 0" ex_two_roots]
    by (simp add: Translate_def Transform_init_def ex_two_roots_def xyzw_def translate3d_def
        wf_tree_def upt_rec)
  from 1 2 3 show ?thesis by simp
qed

text \<open>
  C9. The labels of RotateX, RotateY and RotateZ built with the same angle: all three are
  the string \<^verbatim>\<open>RotateX-\<close> followed by the angle, so they are equal and the labels of
  RotateY and RotateZ do not name their own axis.
\<close>

theorem rotate_labels_coincide:
  "repr (RotateX str theta c) = ''RotateX-'' @ str theta \<and>
   repr (RotateY str theta c) = ''RotateX-'' @ str theta \<and>
   repr (RotateZ str theta c) = ''RotateX-'' @ str theta \<and>
   repr (RotateY str theta c) = repr (RotateX str theta c) \<and>
   repr (RotateZ str theta c) = repr (RotateX str theta c) \<and>
   repr (RotateZ str theta c) = repr (RotateY str theta c)"
  by (simp add: repr_def RotateX_def RotateY_def RotateZ_def Transform_init_def)




text \<open>
  C4 (amended). Applying a transform built by \<^verbatim>\<open>_Transform\<close> (Translate, Scale, Rotate,
  RotateX, RotateY, RotateZ) to the tree at reference \<open>x\<close> of a store allocates a new
  tree and leaves every tree the store held, the input among them, as it was; the new
  tree is the input with only the three coordinate columns replaced, so it has the same
  node count, ids, parent relation and radii. The call returns whenever the pivot mode is
  \<^verbatim>\<open>origin\<close> or the tree has exactly one root. Applying the Normalizer to the tree at
  reference \<open>fx\<close> of a store likewise allocates a new tree and leaves every tree the
  store held, the input among them, as it was; the new tree is the input with only the
  three coordinate columns and the radius column replaced, so it has the same node count,
  ids and parent relation, and on a tree of real values it is the tree \<open>Normalizer_call\<close>
  gives, whose radius column is the normalised radius column of the input. The Normalizer
  returns on every well-formed tree that has a node.
\<close>

theorem transform_apply_frame:
  "((x < length s \<and> transform_call_store tf s x = Inr (y, s') \<longrightarrow>
      y = length s \<and> length s' = Suc (length s) \<and> (\<forall>a<length s. s' ! a = s ! a) \<and>
      transform_call tf (s ! x) = Inr (s' ! y) \<and>
      s' ! y = (s ! x)\<lparr>nd_x := nd_x (s' ! y), nd_y := nd_y (s' ! y), nd_z := nd_z (s' ! y)\<rparr> \<and>
      tree_len (s' ! y) = tree_len (s ! x) \<and> nd_id (s' ! y) = nd_id (s ! x) \<and>
      nd_pid (s' ! y) = nd_pid (s ! x) \<and> nd_r (s' ! y) = nd_r (s ! x) \<and>
      (wf_tree (s ! x) \<longrightarrow> wf_tree (s' ! y))) \<and>
   (center tf = Origin \<or> (\<exists>idx. root_index (nd_pid (s ! x)) = Inr idx) \<longrightarrow>
      (\<exists>y s'. transform_call_store tf s x = Inr (y, s'))) \<and>
   (Normalizer_call t = Inr t' \<longrightarrow>
      tree_len t' = tree_len t \<and> nd_id t' = nd_id t \<and> nd_pid t' = nd_pid t \<and>
      nd_type t' = nd_type t \<and> source t' = source t \<and>
      normalize_column (nd_r t) = Inr (nd_r t') \<and>
      (wf_tree t \<longrightarrow> wf_tree t')) \<and>
   (wf_tree t \<and> nd_id t \<noteq> [] \<longrightarrow> (\<exists>t'. Normalizer_call t = Inr t'))) \<and>
   ((fx < length fs \<and> Normalizer_call_store ieee fs fx = Inr (fy, fs') \<longrightarrow>
      fy = length fs \<and> length fs' = Suc (length fs) \<and> (\<forall>a<length fs. fs' ! a = fs ! a) \<and>
      fs' ! fy = (fs ! fx)\<lparr>nd_x := nd_x (fs' ! fy), nd_y := nd_y (fs' ! fy),
                         nd_z := nd_z (fs' ! fy), nd_r := nd_r (fs' ! fy)\<rparr> \<and>
      tree_len (fs' ! fy) = tree_len (fs ! fx) \<and> nd_id (fs' ! fy) = nd_id (fs ! fx) \<and>
      nd_pid (fs' ! fy) = nd_pid (fs ! fx)) \<and>
   (fx < length fs \<and> fs ! fx = float_tree ft \<longrightarrow>
      Normalizer_call_store ieee fs fx =
        (case Normalizer_call ft of Inl e \<Rightarrow> Inl e | Inr t' \<Rightarrow> Inr (length fs, fs @ [t']))) \<and>
   (fx < length fs \<and> wf_tree (fs ! fx) \<and> nd_id (fs ! fx) \<noteq> [] \<longrightarrow>
      (\<exists>y s'. Normalizer_call_store ieee fs fx = Inr (y, s'))))"
  by (rule conjI[OF transform_frame_value Normalizer_store_frame])

theorem transform_apply_frame_witness:
  "transform_call_store (Scale str0 2 3 4 None) [ex_pivot] 0 =
     Inr (1, [ex_pivot, ex_pivot\<lparr>nd_x := [5, 7], nd_y := [0, 3], nd_z := [0, 0]\<rparr>]) \<and>
   nd_r ([ex_pivot, ex_pivot\<lparr>nd_x := [5, 7], nd_y := [0, 3], nd_z := [0, 0]\<rparr>] ! 1) = nd_r ex_pivot \<and>
   Normalizer_call ex2 =
     Inr \<lparr>nd_id = [0, 1], nd_type = [1, 3], nd_x = [Finite 0, Finite (1 / 2)],
          nd_y = [Finite 0, Finite (- 1)], nd_z = [Finite 0, Finite 0],
          nd_r = [Finite 0, Finite (1 / 2)], nd_pid = [- 1, 0], source = ''a.swc''\<rparr> \<and>
   nd_id ex2 = [0, 1] \<and> nd_pid ex2 = [- 1, 0] \<and>
   Normalizer_call_store ieee0 [float_tree ex2] 0 =
     Inr (1, [float_tree ex2,
              \<lparr>nd_id = [0, 1], nd_type = [1, 3], nd_x = [Finite 0, Finite (1 / 2)],
               nd_y = [Finite 0, Finite (- 1)], nd_z = [Finite 0, Finite 0],
               nd_r = [Finite 0, Finite (1 / 2)], nd_pid = [- 1, 0], source = ''a.swc''\<rparr>])"
proof -
  let ?s' = "[ex_pivot, ex_pivot\<lparr>nd_x := [5, 7], nd_y := [0, 3], nd_z := [0, 0]\<rparr>]"
  let ?t' = "\<lparr>nd_id = [0, 1], nd_type = [1, 3], nd_x = [Finite 0, Finite (1 / 2)],
          nd_y = [Finite 0, Finite (- 1)], nd_z = [Finite 0, Finite 0],
          nd_r = [Finite 0, Finite (1 / 2)], nd_pid = [- 1, 0], source = ''a.swc''\<rparr>"
  have 1: "transform_call_store (Scale str0 2 3 4 None) [ex_pivot] 0 = Inr (1, ?s')"
    by (simp add: transform_call_store_def effective_tm_def root_index_def Scale_def
        Transform_init_def ex_pivot_def xyz_def xyzw_def upt_rec translate3d_def scale3d_def
        copy_def Let_def)
  have 2: "Normalizer_call ex2 = Inr ?t'"
    by (simp add: Normalizer_call_def normalize_column_def np_min_def np_max_def np_div_def
        ex2_def)
  have 3: "(0 :: nat) < length [float_tree ex2] \<and> [float_tree ex2] ! 0 = float_tree ex2"
    by simp
  note th = transform_apply_frame[of 0 "[ex_pivot]" "Scale str0 2 3 4 None" 1 ?s' ex2 ?t'
      0 "[float_tree ex2]" ieee0 1 "[float_tree ex2, ?t']" ex2]
  from th 3 have 4: "Normalizer_call_store ieee0 [float_tree ex2] 0 =
      (case Normalizer_call ex2 of Inl e \<Rightarrow> Inl e
       | Inr t' \<Rightarrow> Inr (length [float_tree ex2], [float_tree ex2] @ [t']))"
    by blast
  have 5: "Normalizer_call_store ieee0 [float_tree ex2] 0 = Inr (1, [float_tree ex2, ?t'])"
    by (simp add: 4 2)
  from th 1 2 have 6: "nd_r (?s' ! 1) = nd_r ex_pivot"
    by simp
  have 7: "nd_id ex2 = [0, 1] \<and> nd_pid ex2 = [- 1, 0]"
    by (simp add: ex2_def)
  from 1 6 2 7 5 show ?thesis
    by (intro conjI) simp_all
qed

text \<open>
  C4 as stated fails for the Normalizer: on the tree \<open>ex2\<close>, with radii 1 and 2, the radii
  of the result are 0 and 1/2.
\<close>

theorem normalizer_changes_radii:
  "\<not> isl (Normalizer_call ex2) \<and>
   nd_r (projr (Normalizer_call ex2)) = [Finite 0, Finite (1 / 2)] \<and>
   nd_r (projr (Normalizer_call ex2)) \<noteq> map Finite (nd_r ex2)"
  by (simp add: Normalizer_call_def normalize_column_def np_min_def np_max_def np_div_def
        ex2_def)

text \<open>
  C2. The Normalizer on the tree \<open>ex2\<close>, whose columns are x = [1, 2], y = [-2, -1],
  z = [3, 3], r = [1, 2]. The divisor is the maximum of the column as it was, not the
  maximum after the minimum is subtracted: x and r become [0, 1/2] (maximum 1/2, not 1),
  y becomes [0, -1] (outside the unit range), and z, whose range is zero, becomes the
  finite [0, 0].
\<close>

theorem normalizer_divides_by_raw_maximum:
  "Normalizer_call ex2 =
     Inr \<lparr>nd_id = [0, 1], nd_type = [1, 3], nd_x = [Finite 0, Finite (1 / 2)],
          nd_y = [Finite 0, Finite (- 1)], nd_z = [Finite 0, Finite 0],
          nd_r = [Finite 0, Finite (1 / 2)], nd_pid = [- 1, 0], source = ''a.swc''\<rparr>"
  by (simp add: Normalizer_call_def normalize_column_def np_min_def np_max_def np_div_def
        ex2_def)

section \<open>Branch tree: lemmas\<close>

lemma tree_nodes_pair:
  assumes "wf_tree t" and "v \<in> set (tree_nodes t)"
  shows "(nid v, npid v) \<in> set (zip (nd_id t) (nd_pid t))"
proof -
  from assms(2) obtain i where i: "i < length (nd_id t)"
    and v: "nid v = nd_id t ! i" "npid v = nd_pid t ! i"
    by (auto simp: tree_nodes_def)
  from assms(1) i have "i < length (nd_pid t)"
    by (simp add: wf_tree_def)
  with i v show ?thesis
    by (auto simp: set_zip)
qed

lemma pair_functional:
  assumes "wf_tree t" and "distinct (nd_id t)"
    and "(i, p) \<in> set (zip (nd_id t) (nd_pid t))" and "(i, q) \<in> set (zip (nd_id t) (nd_pid t))"
  shows "p = q"
proof -
  from assms(1) have "map fst (zip (nd_id t) (nd_pid t)) = nd_id t"
    by (simp add: wf_tree_def)
  with assms(2) have "distinct (map fst (zip (nd_id t) (nd_pid t)))"
    by simp
  from eq_key_imp_eq_value[OF this assms(3,4)] show ?thesis .
qed

lemma non_root_ids_iff:
  "i \<in> set (non_root_ids t) \<longleftrightarrow> (\<exists>p. (i, p) \<in> set (zip (nd_id t) (nd_pid t)) \<and> p \<noteq> - 1)"
  by (auto simp: non_root_ids_def image_iff)

lemma root_ids_iff:
  "i \<in> set (root_ids t) \<longleftrightarrow> (i, - 1) \<in> set (zip (nd_id t) (nd_pid t))"
  by (auto simp: root_ids_def image_iff)

lemma root_not_non_root:
  assumes "wf_tree t" and "distinct (nd_id t)" and "i \<in> set (root_ids t)"
  shows "i \<notin> set (non_root_ids t)"
  using assms pair_functional[OF assms(1,2)]
  by (auto simp: non_root_ids_iff root_ids_iff)

lemma n_children_pos:
  assumes "(c, v) \<in> set (zip (nd_id t) (nd_pid t))"
  shows "0 < n_children t v"
proof -
  from assms have "v \<in> set (nd_pid t)"
    by (rule set_zip_rightD)
  then have "filter (\<lambda>p. p = v) (nd_pid t) \<noteq> []"
    by (auto simp: filter_empty_conv)
  then show ?thesis
    by (simp add: n_children_def)
qed

lemma distinct_concat_pick:
  assumes "distinct (concat (map g xs))" and "\<And>x. x \<in> set xs \<Longrightarrow> f x \<in> set (g x)"
  shows "distinct (map f xs)"
  using assms
proof (induction xs)
  case Nil
  then show ?case by simp
next
  case (Cons x xs)
  have "f x \<notin> f ` set xs"
  proof
    assume "f x \<in> f ` set xs"
    then obtain y where y: "y \<in> set xs" "f x = f y" by auto
    from Cons.prems(2)[of x] have "f x \<in> set (g x)" by simp
    moreover from Cons.prems(2)[of y] y have "f x \<in> set (concat (map g xs))" by auto
    ultimately show False using Cons.prems(1) by auto
  qed
  moreover have "distinct (map f xs)"
    using Cons by simp
  ultimately show ?case by simp
qed

lemma last_in_tl: "2 \<le> length br \<Longrightarrow> last br \<in> set (tl br)"
  by (cases br; cases "tl br") auto

lemma tl_split: "2 \<le> length br \<Longrightarrow> tl br = butlast (tl br) @ [last br]"
  by (cases br; cases "tl br") auto

lemma second_is_child:
  assumes "2 \<le> length br" and "chain br"
  shows "\<exists>s \<in> set br. npid s = nid (hd br)"
  using assms by (cases br; cases "tl br") auto

text \<open>The last ids of the Branches are the non-root branching nodes and tips.\<close>

lemma last_ids_subset:
  assumes v: "valid_tree t" and c: "branch_contract t brs" and br: "br \<in> set brs"
  shows "nid (last br) \<in> set (non_root_ids t) \<and> n_children t (nid (last br)) \<noteq> 1"
proof -
  from v have wf: "wf_tree t" and d: "distinct (nd_id t)"
    by (simp_all add: valid_tree_def)
  from c br have ok: "branch_ok t br"
    by (simp add: branch_contract_def)
  then have len: "2 \<le> length br" by (simp add: branch_ok_def)
  then have "last br \<in> set (tl br)" by (rule last_in_tl)
  with br have "nid (last br) \<in> set (edge_children brs)"
    by (auto simp: edge_children_def)
  with c have nr: "nid (last br) \<in> set (non_root_ids t)"
    by (simp add: branch_contract_def)
  from len have "br \<noteq> []" by auto
  then have "last br \<in> set br" by simp
  with ok have "last br \<in> set (tree_nodes t)"
    by (auto simp: branch_ok_def)
  from tree_nodes_pair[OF wf this]
  have "(nid (last br), npid (last br)) \<in> set (zip (nd_id t) (nd_pid t))" .
  with nr pair_functional[OF wf d] have "npid (last br) \<noteq> - 1"
    by (auto simp: non_root_ids_iff)
  with ok have "n_children t (nid (last br)) \<noteq> 1"
    by (auto simp: branch_ok_def endpoint_def)
  with nr show ?thesis by simp
qed

lemma last_ids_superset:
  assumes c: "branch_contract t brs" and i: "i \<in> set (non_root_ids t)"
    and n: "n_children t i \<noteq> 1"
  shows "i \<in> (\<lambda>br. nid (last br)) ` set brs"
proof -
  from c i have "i \<in> set (edge_children brs)"
    by (simp add: branch_contract_def)
  then obtain br w where br: "br \<in> set brs" and w: "w \<in> set (tl br)" "nid w = i"
    by (auto simp: edge_children_def)
  from c br have ok: "branch_ok t br"
    by (simp add: branch_contract_def)
  then have "2 \<le> length br" by (simp add: branch_ok_def)
  from tl_split[OF this] w(1) have "w \<in> set (butlast (tl br)) \<or> w = last br"
    by (metis Un_iff empty_iff empty_set set_ConsD set_append)
  moreover have "w \<notin> set (butlast (tl br))"
    using ok n w(2) by (auto simp: branch_ok_def)
  ultimately have "w = last br" by simp
  with br w(2) show ?thesis by auto
qed

lemma distinct_last_ids:
  assumes c: "branch_contract t brs"
  shows "distinct (map (\<lambda>br. nid (last br)) brs)"
proof -
  have "distinct (concat (map (\<lambda>br. map nid (tl br)) brs))"
    using c by (simp add: branch_contract_def edge_children_def)
  moreover have "nid (last br) \<in> set (map nid (tl br))" if "br \<in> set brs" for br
  proof -
    from c that have "2 \<le> length br"
      by (simp add: branch_contract_def branch_ok_def)
    from last_in_tl[OF this] show ?thesis by simp
  qed
  ultimately show ?thesis
    by (rule distinct_concat_pick)
qed

text \<open>The first id of a Branch is the root's id or the last id of a Branch.\<close>

lemma first_id_cases:
  assumes v: "valid_tree t" and c: "branch_contract t brs" and br: "br \<in> set brs"
  shows "nid (hd br) \<in> set (root_ids t) \<or> nid (hd br) \<in> (\<lambda>br. nid (last br)) ` set brs"
proof -
  from v have wf: "wf_tree t" and d: "distinct (nd_id t)"
    by (simp_all add: valid_tree_def)
  from c br have ok: "branch_ok t br"
    by (simp add: branch_contract_def)
  then have len: "2 \<le> length br" and ch: "chain br" and sub: "set br \<subseteq> set (tree_nodes t)"
    and ep: "endpoint t (hd br)"
    by (simp_all add: branch_ok_def)
  from second_is_child[OF len ch] obtain s where s: "s \<in> set br" "npid s = nid (hd br)"
    by auto
  with sub tree_nodes_pair[OF wf, of s]
  have "(nid s, nid (hd br)) \<in> set (zip (nd_id t) (nd_pid t))"
    by auto
  then have pos: "0 < n_children t (nid (hd br))"
    by (rule n_children_pos)
  from len have "hd br \<in> set br" by (cases br) auto
  with sub tree_nodes_pair[OF wf, of "hd br"]
  have hp: "(nid (hd br), npid (hd br)) \<in> set (zip (nd_id t) (nd_pid t))"
    by auto
  show ?thesis
  proof (cases "npid (hd br) = - 1")
    case True
    with hp show ?thesis by (simp add: root_ids_iff)
  next
    case False
    with hp have "nid (hd br) \<in> set (non_root_ids t)"
      by (auto simp: non_root_ids_iff)
    moreover from False ep pos have "n_children t (nid (hd br)) \<noteq> 1"
      by (auto simp: endpoint_def)
    ultimately show ?thesis
      using last_ids_superset[OF c] by simp
  qed
qed

lemma index_of_Some:
  "index_of v xs = Some k \<Longrightarrow> k < length xs \<and> xs ! k = v"
  by (induction xs arbitrary: k) (auto split: if_splits)

lemma index_of_None_iff: "index_of v xs = None \<longleftrightarrow> v \<notin> set xs"
  by (induction xs) auto

lemma id_remap_None_iff: "id_remap sub_id i = None \<longleftrightarrow> i \<notin> set sub_id"
  by (simp add: id_remap_def index_of_None_iff)

lemma id_remap_Some:
  "id_remap sub_id i = Some q \<Longrightarrow> q \<in> set (map int [0..<length sub_id])"
  by (auto simp: id_remap_def dest: index_of_Some)

lemma mapM_Inr:
  "(\<And>x. x \<in> set xs \<Longrightarrow> \<exists>y. f x = Inr y) \<Longrightarrow> \<exists>ys. mapM f xs = Inr ys"
proof (induction xs)
  case Nil
  then show ?case by simp
next
  case (Cons x xs)
  from Cons.prems[of x] obtain y where "f x = Inr y" by auto
  moreover from Cons obtain ys where "mapM f xs = Inr ys" by auto
  ultimately show ?case by simp
qed

lemma to_sub_tree_Inr:
  assumes "set sub_id \<subseteq> set (nd_id t)"
    and "\<And>p. p \<in> set sub_pid \<Longrightarrow> p = - 1 \<or> p \<in> set sub_id"
  shows "\<exists>st. to_sub_tree t sub_id sub_pid = Inr (st, id_remap sub_id) \<and>
              nd_id st = map int [0..<length sub_id]"
proof -
  let ?row = "\<lambda>i. case index_of i (nd_id t) of None \<Rightarrow> Inl KeyError | Some k \<Rightarrow> Inr k"
  let ?par = "\<lambda>p. if p = - 1 then Inr (- 1)
                   else (case id_remap sub_id p of None \<Rightarrow> Inl KeyError | Some q \<Rightarrow> Inr q)"
  have "\<exists>k. ?row i = Inr k" if "i \<in> set sub_id" for i
  proof -
    from that assms(1) have "index_of i (nd_id t) \<noteq> None"
      by (auto simp: index_of_None_iff)
    then show ?thesis by auto
  qed
  from mapM_Inr[of sub_id ?row, OF this] obtain rows where rows: "mapM ?row sub_id = Inr rows"
    by auto
  have "\<exists>q. ?par p = Inr q" if "p \<in> set sub_pid" for p
  proof (cases "p = - 1")
    case True
    then show ?thesis by simp
  next
    case False
    with assms(2)[OF that] have "id_remap sub_id p \<noteq> None"
      by (simp add: id_remap_None_iff)
    with False show ?thesis by auto
  qed
  from mapM_Inr[of sub_pid ?par, OF this] obtain new_pid where
    new_pid: "mapM ?par sub_pid = Inr new_pid"
    by auto
  show ?thesis
    by (simp add: to_sub_tree_def Let_def rows new_pid)
qed

text \<open>The dictionary operations.\<close>

lemma map_of_dict_append:
  "map_of (dict_append idx b d) k =
     (if k = idx then map_option (\<lambda>brs. brs @ [b]) (map_of d k) else map_of d k)"
  by (induction d) (auto simp: dict_append_def)

lemma keys_dict_append: "map fst (dict_append idx b d) = map fst d"
  by (induction d) (auto simp: dict_append_def)

lemma keys_setdefault:
  "map fst (setdefault idx v d) = (if idx \<in> fst ` set d then map fst d else map fst d @ [idx])"
  by (simp add: setdefault_def)

lemma map_of_absent: "k \<notin> fst ` set d \<Longrightarrow> map_of d k = None"
  by (simp add: map_of_eq_None_iff)

lemma map_of_setdefault:
  "map_of (setdefault idx v d) k =
     (if k = idx \<and> idx \<notin> fst ` set d then Some v else map_of d k)"
  by (auto simp: setdefault_def map_of_append map_add_def map_of_absent
      split: option.splits)

lemma step_keys:
  "map fst (dict_append idx b (setdefault idx [] d)) =
     (if idx \<in> fst ` set d then map fst d else map fst d @ [idx])"
  by (simp add: keys_dict_append keys_setdefault)

lemma map_of_present: "k \<in> fst ` set d \<Longrightarrow> \<exists>brs. map_of d k = Some brs"
  using map_of_eq_None_iff[of d k] by auto

lemma step_map_of:
  "map_of (dict_append idx b (setdefault idx [] d)) k =
     (if k = idx then Some (filed d idx @ [b]) else map_of d k)"
proof (cases "idx \<in> fst ` set d")
  case True
  from map_of_present[OF this] obtain brs where "map_of d idx = Some brs" by auto
  with True show ?thesis
    by (simp add: filed_def map_of_dict_append map_of_setdefault)
next
  case False
  then show ?thesis
    by (simp add: filed_def map_of_dict_append map_of_setdefault map_of_absent)
qed

lemma step_filed:
  "filed (dict_append idx b (setdefault idx [] d)) k =
     (if k = idx then filed d k @ [b] else filed d k)"
  by (simp add: filed_def[of "dict_append idx b (setdefault idx [] d)"] step_map_of)
    (simp add: filed_def)

lemma dict_append_absent: "idx \<notin> fst ` set d \<Longrightarrow> dict_append idx b d = d"
  by (induction d) (auto simp: dict_append_def)

lemma dict_append_Cons:
  "dict_append idx b ((k, brs) # d) =
     (if k = idx then (k, brs @ [b]) else (k, brs)) # dict_append idx b d"
  by (simp add: dict_append_def)

lemma dict_append_snoc:
  "dict_append idx b (d @ [(k, brs)]) =
     dict_append idx b d @ [if k = idx then (k, brs @ [b]) else (k, brs)]"
  by (simp add: dict_append_def)

lemma mset_dict_append:
  "distinct (map fst d) \<Longrightarrow> idx \<in> fst ` set d \<Longrightarrow>
   mset (concat (map snd (dict_append idx b d))) = add_mset b (mset (concat (map snd d)))"
proof (induction d)
  case Nil
  then show ?case by simp
next
  case (Cons e d)
  obtain k brs where e: "e = (k, brs)" by (cases e)
  show ?case
  proof (cases "k = idx")
    case True
    with Cons.prems e have "idx \<notin> fst ` set d" by auto
    then have "dict_append idx b d = d" by (rule dict_append_absent)
    with True e show ?thesis by (simp add: dict_append_Cons)
  next
    case False
    with Cons e show ?thesis by (auto simp: dict_append_Cons)
  qed
qed

lemma mset_step:
  assumes "distinct (map fst d)"
  shows "mset (concat (map snd (dict_append idx b (setdefault idx [] d)))) =
         add_mset b (mset (concat (map snd d)))"
proof (cases "idx \<in> fst ` set d")
  case True
  then have "setdefault idx [] d = d" by (simp add: setdefault_def)
  with mset_dict_append[OF assms True] show ?thesis by simp
next
  case False
  then have "setdefault idx [] d = d @ [(idx, [])]" by (simp add: setdefault_def)
  with False show ?thesis
    by (simp add: dict_append_snoc dict_append_absent)
qed

lemma distinct_step:
  "distinct (map fst d) \<Longrightarrow> distinct (map fst (dict_append idx b (setdefault idx [] d)))"
  by (auto simp: step_keys)

lemma attach_branches_Inr:
  assumes "\<And>br. br \<in> set brs \<Longrightarrow> br \<noteq> [] \<and> id_map (nid (hd br)) \<noteq> None"
  shows "\<exists>d'. attach_branches id_map brs d = Inr d'"
  using assms
proof (induction brs arbitrary: d)
  case Nil
  then show ?case by simp
next
  case (Cons br brs)
  from Cons.prems[of br] obtain n0 rest idx where "br = n0 # rest" "id_map (nid n0) = Some idx"
    by (cases br) auto
  moreover have "\<exists>d'. attach_branches id_map brs d1 = Inr d'" for d1
    using Cons.IH Cons.prems by simp
  ultimately show ?case by simp
qed

lemma attach_branches_spec:
  assumes "attach_branches id_map brs d = Inr d'" and "distinct (map fst d)"
  shows "distinct (map fst d') \<and>
         set (map fst d') = set (map fst d) \<union> {k. \<exists>br\<in>set brs. id_map (nid (hd br)) = Some k} \<and>
         (\<forall>k. filed d' k =
                filed d k @ map detach (filter (\<lambda>br. id_map (nid (hd br)) = Some k) brs)) \<and>
         mset (concat (map snd d')) = mset (concat (map snd d)) + mset (map detach brs)"
  using assms
proof (induction brs arbitrary: d)
  case Nil
  then show ?case by simp
next
  case (Cons br brs)
  from Cons.prems(1) obtain n0 rest idx where br: "br = n0 # rest"
    and idx: "id_map (nid n0) = Some idx"
    and rec: "attach_branches id_map brs (dict_append idx (detach br) (setdefault idx [] d)) = Inr d'"
    by (auto split: list.splits option.splits)
  let ?d1 = "dict_append idx (detach br) (setdefault idx [] d)"
  have d1: "distinct (map fst ?d1)"
    using Cons.prems(2) by (rule distinct_step)
  note ih = Cons.IH[OF rec d1]
  have hd: "id_map (nid (hd br)) = Some idx"
    using br idx by simp
  have k1: "set (map fst ?d1) = insert idx (set (map fst d))"
    by (auto simp: step_keys)
  have "distinct (map fst d')"
    using ih by simp
  moreover have "set (map fst d') =
      set (map fst d) \<union> {k. \<exists>b\<in>set (br # brs). id_map (nid (hd b)) = Some k}"
    using ih k1 hd by auto
  moreover have "filed d' k =
      filed d k @ map detach (filter (\<lambda>b. id_map (nid (hd b)) = Some k) (br # brs))" for k
  proof -
    from ih have "filed d' k =
        filed ?d1 k @ map detach (filter (\<lambda>b. id_map (nid (hd b)) = Some k) brs)"
      by blast
    then show ?thesis
      using hd by (auto simp: step_filed)
  qed
  moreover have "mset (concat (map snd d')) =
      mset (concat (map snd d)) + mset (map detach (br # brs))"
    using ih mset_step[OF Cons.prems(2)] by simp
  ultimately show ?case by blast
qed



lemma ids_split:
  assumes "wf_tree t"
  shows "set (nd_id t) = set (root_ids t) \<union> set (non_root_ids t)"
proof -
  from assms have "set (nd_id t) = fst ` set (zip (nd_id t) (nd_pid t))"
    by (metis wf_tree_def map_fst_zip set_map)
  also have "\<dots> = set (root_ids t) \<union> set (non_root_ids t)"
    by (auto simp: root_ids_def non_root_ids_def image_iff)
  finally show ?thesis .
qed

lemma non_root_ids_eq:
  assumes "valid_tree t" and "root_ids t = [r]"
  shows "set (non_root_ids t) = set (nd_id t) - {r}"
proof -
  from assms(1) have wf: "wf_tree t" and d: "distinct (nd_id t)"
    by (simp_all add: valid_tree_def)
  from root_not_non_root[OF wf d, of r] assms(2) have "r \<notin> set (non_root_ids t)"
    by simp
  with ids_split[OF wf] assms(2) show ?thesis by auto
qed

lemma last_ids_set:
  assumes v: "valid_tree t" and r: "root_ids t = [r]" and c: "branch_contract t brs"
  shows "set (map (\<lambda>br. nid (last br)) brs) =
         {i \<in> set (nd_id t). i \<noteq> r \<and> n_children t i \<noteq> 1}"
proof -
  have "set (map (\<lambda>br. nid (last br)) brs) =
        {i \<in> set (non_root_ids t). n_children t i \<noteq> 1}"
    using last_ids_subset[OF v c] last_ids_superset[OF c] by auto
  with non_root_ids_eq[OF v r] show ?thesis by auto
qed

lemma sub_id_pid_Inr:
  assumes c: "branch_contract t brs"
  shows "sub_id_pid brs =
         Inr (0 # map (\<lambda>br. nid (last br)) brs, - 1 # map (\<lambda>br. nid (hd br)) brs)"
proof -
  have "[] \<notin> set brs"
    using c by (auto simp: branch_contract_def branch_ok_def)
  then show ?thesis
    by (simp add: sub_id_pid_def)
qed

lemma sub_id_distinct:
  assumes v: "valid_tree t" and r: "root_ids t = [r]" and c: "branch_contract t brs"
  shows "distinct (r # map (\<lambda>br. nid (last br)) brs)"
  using distinct_last_ids[OF c] last_ids_set[OF v r c] by simp

lemma sub_id_in_tree:
  assumes v: "valid_tree t" and r: "root_ids t = [r]" and c: "branch_contract t brs"
  shows "set (r # map (\<lambda>br. nid (last br)) brs) \<subseteq> set (nd_id t)"
proof -
  from v have wf: "wf_tree t" by (simp add: valid_tree_def)
  from ids_split[OF wf] r have "r \<in> set (nd_id t)" by simp
  with last_ids_set[OF v r c] show ?thesis by auto
qed

lemma first_ids_retained:
  assumes v: "valid_tree t" and r: "root_ids t = [r]" and c: "branch_contract t brs"
    and br: "br \<in> set brs"
  shows "nid (hd br) \<in> set (r # map (\<lambda>br. nid (last br)) brs)"
  using first_id_cases[OF v c br] r by auto

lemma from_tree_Inr:
  assumes v: "valid_tree t" and r: "root_ids t = [0]" and c: "branch_contract t (g t)"
  obtains bt where "from_tree g t = Inr bt"
    and "nd_id bt = map int [0..<Suc (length (g t))]"
    and "attach_branches (id_remap (0 # map (\<lambda>br. nid (last br)) (g t))) (g t) [] =
         Inr (branches bt)"
    and "source bt = source t"
proof -
  let ?sub_id = "0 # map (\<lambda>br. nid (last br)) (g t)"
  let ?sub_pid = "- 1 # map (\<lambda>br. nid (hd br)) (g t)"
  have sp: "sub_id_pid (g t) = Inr (?sub_id, ?sub_pid)"
    using c by (rule sub_id_pid_Inr)
  have par: "p = - 1 \<or> p \<in> set ?sub_id" if "p \<in> set ?sub_pid" for p
    using that first_ids_retained[OF v r c] by auto
  from to_sub_tree_Inr[OF sub_id_in_tree[OF v r c], of ?sub_pid] par
  obtain st where st: "to_sub_tree t ?sub_id ?sub_pid = Inr (st, id_remap ?sub_id)"
    and ids: "nd_id st = map int [0..<length ?sub_id]"
    by blast
  have "br \<noteq> [] \<and> id_remap ?sub_id (nid (hd br)) \<noteq> None" if "br \<in> set (g t)" for br
  proof -
    from c that have "br \<noteq> []"
      by (auto simp: branch_contract_def branch_ok_def)
    moreover from first_ids_retained[OF v r c that] have "id_remap ?sub_id (nid (hd br)) \<noteq> None"
      by (simp only: id_remap_None_iff not_not)
    ultimately show ?thesis by simp
  qed
  from attach_branches_Inr[of "g t" "id_remap ?sub_id" "[]", OF this]
  obtain d where d: "attach_branches (id_remap ?sub_id) (g t) [] = Inr d"
    by blast
  let ?bt = "\<lparr>nd_id = nd_id st, nd_type = nd_type st, nd_x = nd_x st, nd_y = nd_y st,
              nd_z = nd_z st, nd_r = nd_r st, nd_pid = nd_pid st, source = source t,
              branches = d\<rparr>"
  have "from_tree g t = Inr ?bt"
    by (simp add: from_tree_def Let_def sp st d)
  moreover have "nd_id ?bt = map int [0..<Suc (length (g t))]"
    using ids by simp
  moreover have "attach_branches (id_remap ?sub_id) (g t) [] = Inr (branches ?bt)"
    using d by simp
  moreover have "source ?bt = source t" by simp
  ultimately show thesis by (rule that)
qed

lemma length_filter_disj:
  assumes "\<And>x. x \<in> set xs \<Longrightarrow> \<not> (P x \<and> Q x)"
  shows "length (filter (\<lambda>x. P x \<or> Q x) xs) = length (filter P xs) + length (filter Q xs)"
  using assms by (induction xs) auto

lemma length_filter_except:
  assumes "distinct xs"
  shows "length (filter P xs) =
         length (filter (\<lambda>v. v \<noteq> a \<and> P v) xs) + (if a \<in> set xs \<and> P a then 1 else 0)"
  using assms
proof (induction xs)
  case Nil
  then show ?case by simp
next
  case (Cons x xs)
  then show ?case by (cases "x = a") (auto simp: filter_id_conv)
qed

lemma retained_count:
  assumes v: "valid_tree t" and r: "root_ids t = [r]" and c: "branch_contract t brs"
  shows "length brs =
         length (filter (\<lambda>v. v \<noteq> r) (branching_ids t)) + length (filter (\<lambda>v. v \<noteq> r) (tip_ids t))"
proof -
  from v have d: "distinct (nd_id t)" by (simp add: valid_tree_def)
  let ?P = "\<lambda>i. 2 \<le> n_children t i \<and> i \<noteq> r"
  let ?Q = "\<lambda>i. n_children t i = 0 \<and> i \<noteq> r"
  have "length brs = card (set (map (\<lambda>br. nid (last br)) brs))"
    using distinct_last_ids[OF c] by (simp add: distinct_card del: set_map)
  also have "\<dots> = card {i \<in> set (nd_id t). i \<noteq> r \<and> n_children t i \<noteq> 1}"
    by (simp only: last_ids_set[OF v r c])
  also have "{i \<in> set (nd_id t). i \<noteq> r \<and> n_children t i \<noteq> 1} =
             set (filter (\<lambda>i. ?P i \<or> ?Q i) (nd_id t))"
    by auto
  also have "card \<dots> = length (filter (\<lambda>i. ?P i \<or> ?Q i) (nd_id t))"
    using d by (simp add: distinct_card del: set_filter)
  also have "\<dots> = length (filter ?P (nd_id t)) + length (filter ?Q (nd_id t))"
    by (rule length_filter_disj) auto
  finally show ?thesis
    by (simp add: branching_ids_def tip_ids_def)
qed

lemma retained_set:
  assumes v: "valid_tree t" and r: "root_ids t = [r]" and c: "branch_contract t brs"
  shows "set (r # map (\<lambda>br. nid (last br)) brs) =
         set (root_ids t) \<union> set (branching_ids t) \<union> set (tip_ids t)"
proof -
  have "set (map (\<lambda>br. nid (last br)) brs) =
        {i \<in> set (nd_id t). i \<noteq> r \<and> n_children t i \<noteq> 1}"
    using v r c by (rule last_ids_set)
  then show ?thesis
    using r by (auto simp: branching_ids_def tip_ids_def)
qed

lemma id_remap_inj:
  "id_remap sub_id a = Some k \<Longrightarrow> id_remap sub_id b = Some k \<Longrightarrow> a = b"
  by (auto simp: id_remap_def dest!: index_of_Some)


lemma get_node_branches_iff:
  "get_node_branches bt n =
     (if n \<in> fst ` set (branches bt) then Inr (filed (branches bt) n) else Inl KeyError)"
proof (cases "n \<in> fst ` set (branches bt)")
  case True
  from map_of_present[OF this] obtain brs where "map_of (branches bt) n = Some brs" by auto
  with True show ?thesis by (simp add: get_node_branches_def filed_def)
next
  case False
  then show ?thesis by (simp add: get_node_branches_def map_of_absent)
qed

lemma from_tree_branches:
  assumes v: "valid_tree t" and r: "root_ids t = [0]" and c: "branch_contract t (g t)"
  shows "\<exists>bt. from_tree g t = Inr bt \<and>
           nd_id bt = map int [0..<Suc (length (g t))] \<and>
           distinct (map fst (branches bt)) \<and>
           fst ` set (branches bt) =
             {k. \<exists>br\<in>set (g t).
                    id_remap (0 # map (\<lambda>br. nid (last br)) (g t)) (nid (hd br)) = Some k} \<and>
           (\<forall>k. filed (branches bt) k =
                  map detach
                    (filter (\<lambda>br. id_remap (0 # map (\<lambda>br. nid (last br)) (g t)) (nid (hd br)) = Some k)
                       (g t))) \<and>
           mset (get_branches bt) = mset (map detach (g t))"
proof -
  let ?remap = "id_remap (0 # map (\<lambda>br. nid (last br)) (g t))"
  from assms obtain bt where bt: "from_tree g t = Inr bt"
    and ids: "nd_id bt = map int [0..<Suc (length (g t))]"
    and at: "attach_branches ?remap (g t) [] = Inr (branches bt)"
    by (rule from_tree_Inr)
  from attach_branches_spec[OF at] have sp:
    "distinct (map fst (branches bt))"
    "set (map fst (branches bt)) = {k. \<exists>br\<in>set (g t). ?remap (nid (hd br)) = Some k}"
    "\<forall>k. filed (branches bt) k =
       filed [] k @ map detach (filter (\<lambda>br. ?remap (nid (hd br)) = Some k) (g t))"
    "mset (concat (map snd (branches bt))) = mset (map detach (g t))"
    by simp_all
  have "fst ` set (branches bt) = {k. \<exists>br\<in>set (g t). ?remap (nid (hd br)) = Some k}"
    using sp(2) by simp
  moreover have "\<forall>k. filed (branches bt) k =
       map detach (filter (\<lambda>br. ?remap (nid (hd br)) = Some k) (g t))"
    using sp(3) by (simp add: filed_def)
  moreover have "mset (get_branches bt) = mset (map detach (g t))"
    using sp(4) by (simp add: get_branches_def)
  ultimately show ?thesis
    using bt ids sp(1) by blast
qed

lemma first_has_child:
  assumes v: "valid_tree t" and c: "branch_contract t brs" and br: "br \<in> set brs"
  shows "0 < n_children t (nid (hd br))"
proof -
  from v have wf: "wf_tree t" by (simp add: valid_tree_def)
  from c br have "branch_ok t br"
    by (simp add: branch_contract_def)
  then have len: "2 \<le> length br" and ch: "chain br" and sub: "set br \<subseteq> set (tree_nodes t)"
    by (simp_all add: branch_ok_def)
  from second_is_child[OF len ch] obtain s where s: "s \<in> set br" "npid s = nid (hd br)"
    by auto
  with sub tree_nodes_pair[OF wf, of s]
  have "(nid s, nid (hd br)) \<in> set (zip (nd_id t) (nd_pid t))"
    by auto
  then show ?thesis by (rule n_children_pos)
qed

lemma new_id_in_reduced:
  assumes "id_remap (0 # map f brs) i = Some k" and "nd_id bt = map int [0..<Suc (length brs)]"
  shows "k \<in> set (nd_id bt)"
  using id_remap_Some[OF assms(1)] assms(2) by simp

section \<open>Branch tree: claims\<close>

text \<open>
  C3 (amended). The id list \<^verbatim>\<open>from_tree\<close> passes to the Sub-Tree Builder is the literal
  id 0 followed by the id of the last node of every Branch, and the parent list is the
  sentinel \<open>-1\<close> followed by the id of the first node of every Branch: id 0 is paired
  with the sentinel, and the last id of each Branch with the first id of that Branch.
  When the tree keeps the Node Tree invariant, its root has id 0 and the Branches keep the
  extractor contract, the call returns these lists, the id list has no repetition, and its
  set is the root's id together with the first and the last id of every Branch.
\<close>

theorem retained_ids_and_parents:
  "(sub_id_pid brs = Inr (sub_id, sub_pid) \<longrightarrow>
      sub_id = 0 # map (\<lambda>br. nid (last br)) brs \<and>
      sub_pid = - 1 # map (\<lambda>br. nid (hd br)) brs \<and>
      zip sub_id sub_pid = (0, - 1) # map (\<lambda>br. (nid (last br), nid (hd br))) brs) \<and>
   (valid_tree t \<and> root_ids t = [0] \<and> branch_contract t brs \<longrightarrow>
      sub_id_pid brs =
        Inr (0 # map (\<lambda>br. nid (last br)) brs, - 1 # map (\<lambda>br. nid (hd br)) brs) \<and>
      distinct (0 # map (\<lambda>br. nid (last br)) brs) \<and>
      set (0 # map (\<lambda>br. nid (last br)) brs) =
        set (root_ids t) \<union> (\<lambda>br. nid (hd br)) ` set brs \<union> (\<lambda>br. nid (last br)) ` set brs)"
proof (intro conjI impI)
  assume a: "sub_id_pid brs = Inr (sub_id, sub_pid)"
  then show 1: "sub_id = 0 # map (\<lambda>br. nid (last br)) brs"
    and 2: "sub_pid = - 1 # map (\<lambda>br. nid (hd br)) brs"
    by (auto simp: sub_id_pid_def split: if_splits)
  show "zip sub_id sub_pid = (0, - 1) # map (\<lambda>br. (nid (last br), nid (hd br))) brs"
    unfolding 1 2 by (simp add: zip_map_map zip_same_conv_map)
next
  assume a: "valid_tree t \<and> root_ids t = [0] \<and> branch_contract t brs"
  then have v: "valid_tree t" and r: "root_ids t = [0]" and c: "branch_contract t brs"
    by simp_all
  show "sub_id_pid brs =
        Inr (0 # map (\<lambda>br. nid (last br)) brs, - 1 # map (\<lambda>br. nid (hd br)) brs)"
    using c by (rule sub_id_pid_Inr)
  show "distinct (0 # map (\<lambda>br. nid (last br)) brs)"
    using v r c by (rule sub_id_distinct)
  show "set (0 # map (\<lambda>br. nid (last br)) brs) =
        set (root_ids t) \<union> (\<lambda>br. nid (hd br)) ` set brs \<union> (\<lambda>br. nid (last br)) ` set brs"
    using first_ids_retained[OF v r c] r by auto
qed

theorem retained_ids_and_parents_witness:
  "valid_tree ex_chain5 \<and> root_ids ex_chain5 = [0] \<and>
   branch_contract ex_chain5 ex_chain5_branches \<and>
   sub_id_pid ex_chain5_branches = Inr ([0, 2, 3, 4], [- 1, 0, 2, 2]) \<and>
   distinct (0 # map (\<lambda>br. nid (last br)) ex_chain5_branches) \<and>
   set (0 # map (\<lambda>br. nid (last br)) ex_chain5_branches) =
     set (root_ids ex_chain5) \<union> (\<lambda>br. nid (hd br)) ` set ex_chain5_branches \<union>
     (\<lambda>br. nid (last br)) ` set ex_chain5_branches"
proof -
  have v: "valid_tree ex_chain5" by code_simp
  have r: "root_ids ex_chain5 = [0]" by code_simp
  have c: "branch_contract ex_chain5 ex_chain5_branches" by code_simp
  have s: "sub_id_pid ex_chain5_branches = Inr ([0, 2, 3, 4], [- 1, 0, 2, 2])" by code_simp
  from retained_ids_and_parents[of ex_chain5_branches "[0, 2, 3, 4]" "[- 1, 0, 2, 2]" ex_chain5]
    v r c
  have "distinct (0 # map (\<lambda>br. nid (last br)) ex_chain5_branches) \<and>
        set (0 # map (\<lambda>br. nid (last br)) ex_chain5_branches) =
          set (root_ids ex_chain5) \<union> (\<lambda>br. nid (hd br)) ` set ex_chain5_branches \<union>
          (\<lambda>br. nid (last br)) ` set ex_chain5_branches"
    by blast
  with v r c s show ?thesis by blast
qed

text \<open>
  C3 as stated fails when the root's id is not 0: for the two-node tree \<open>ex_root1\<close>,
  whose root has id 1, and its one Branch from node 1 to node 2, the id list is [0, 2],
  which is not the set of the root's id and the Branch's first and last id.
\<close>

theorem retained_root_is_literal_zero:
  "valid_tree ex_root1 \<and> branch_contract ex_root1 ex_root1_branches \<and>
   root_ids ex_root1 = [1] \<and>
   sub_id_pid ex_root1_branches = Inr ([0, 2], [- 1, 1]) \<and>
   set [0, 2] \<noteq>
     set (root_ids ex_root1) \<union> set (map (nid \<circ> hd) ex_root1_branches) \<union>
     set (map (nid \<circ> last) ex_root1_branches)"
  by code_simp

text \<open>
  C5 (amended). When the tree keeps the Node Tree invariant, its root has id 0 and the
  Branches keep the extractor contract, \<^verbatim>\<open>from_tree\<close> returns a reduced tree; the ids it
  retains are exactly the root, the branching nodes and the tips of the source tree; its
  node count is the size of that set, which is one plus the number of branching nodes
  other than the root plus the number of tips other than the root. The sum
  \<open>1 + branching nodes + tips\<close> is the node count when the root has exactly one child,
  and one more than the node count when the root is itself a branching node or a tip.
\<close>

theorem reduced_node_count:
  assumes "valid_tree t" and "root_ids t = [0]" and "branch_contract t (g t)"
  shows "\<exists>bt. from_tree g t = Inr bt \<and>
           set (0 # map (\<lambda>br. nid (last br)) (g t)) =
             set (root_ids t) \<union> set (branching_ids t) \<union> set (tip_ids t) \<and>
           tree_len bt = card (set (root_ids t) \<union> set (branching_ids t) \<union> set (tip_ids t)) \<and>
           tree_len bt =
             1 + length (filter (\<lambda>v. v \<noteq> 0) (branching_ids t)) +
                 length (filter (\<lambda>v. v \<noteq> 0) (tip_ids t)) \<and>
           1 + length (branching_ids t) + length (tip_ids t) =
             tree_len bt + (if n_children t 0 = 1 then 0 else 1)"
proof -
  from assms obtain bt where bt: "from_tree g t = Inr bt"
    and ids: "nd_id bt = map int [0..<Suc (length (g t))]"
    by (rule from_tree_Inr)
  from assms(1) have wf: "wf_tree t" and d: "distinct (nd_id t)"
    by (simp_all add: valid_tree_def)
  from ids_split[OF wf] assms(2) have root: "0 \<in> set (nd_id t)" by simp
  have len: "tree_len bt = Suc (length (g t))"
    by (simp add: tree_len_def ids)
  have rs: "set (0 # map (\<lambda>br. nid (last br)) (g t)) =
            set (root_ids t) \<union> set (branching_ids t) \<union> set (tip_ids t)"
    using assms by (rule retained_set)
  have "card (set (0 # map (\<lambda>br. nid (last br)) (g t))) = Suc (length (g t))"
    using sub_id_distinct[OF assms] distinct_card[of "0 # map (\<lambda>br. nid (last br)) (g t)"]
    by simp
  with rs len have cd: "tree_len bt =
      card (set (root_ids t) \<union> set (branching_ids t) \<union> set (tip_ids t))"
    by simp
  have cnt: "tree_len bt =
      1 + length (filter (\<lambda>v. v \<noteq> 0) (branching_ids t)) +
          length (filter (\<lambda>v. v \<noteq> 0) (tip_ids t))"
    using retained_count[OF assms] len by simp
  have b: "length (branching_ids t) =
      length (filter (\<lambda>v. v \<noteq> 0) (branching_ids t)) + (if 2 \<le> n_children t 0 then 1 else 0)"
    using length_filter_except[OF d, of "\<lambda>v. 2 \<le> n_children t v" 0] root
    by (simp add: branching_ids_def conj_commute)
  have tp: "length (tip_ids t) =
      length (filter (\<lambda>v. v \<noteq> 0) (tip_ids t)) + (if n_children t 0 = 0 then 1 else 0)"
    using length_filter_except[OF d, of "\<lambda>v. n_children t v = 0" 0] root
    by (simp add: tip_ids_def conj_commute)
  have "1 + length (branching_ids t) + length (tip_ids t) =
        tree_len bt + (if n_children t 0 = 1 then 0 else 1)"
    using cnt b tp by auto
  with bt rs cd cnt show ?thesis by blast
qed

theorem reduced_node_count_witness:
  "valid_tree ex_chain5 \<and> root_ids ex_chain5 = [0] \<and>
   branch_contract ex_chain5 ex_chain5_branches \<and>
   (\<exists>bt. from_tree ex_chain5_get_branches ex_chain5 = Inr bt \<and> tree_len bt = 4) \<and>
   branching_ids ex_chain5 = [2] \<and> tip_ids ex_chain5 = [3, 4]"
proof -
  have v: "valid_tree ex_chain5" by code_simp
  have r: "root_ids ex_chain5 = [0]" by code_simp
  have c: "branch_contract ex_chain5 ex_chain5_branches" by code_simp
  have g: "ex_chain5_get_branches ex_chain5 = ex_chain5_branches"
    by (simp add: ex_chain5_get_branches_def)
  from c have c': "branch_contract ex_chain5 (ex_chain5_get_branches ex_chain5)"
    by (simp only: g)
  have b: "branching_ids ex_chain5 = [2]" by code_simp
  have t: "tip_ids ex_chain5 = [3, 4]" by code_simp
  from reduced_node_count[of ex_chain5 ex_chain5_get_branches, OF v r c', unfolded g] v r c b t
  show ?thesis by auto
qed

text \<open>
  C5 as stated fails when the root is a branching node: for the root with two tips
  \<open>ex_fork\<close> the reduced tree has 3 nodes, and one plus the number of branching nodes
  plus the number of tips is 4.
\<close>

theorem node_count_formula_counts_root_twice:
  "valid_tree ex_fork \<and> root_ids ex_fork = [0] \<and> branch_contract ex_fork ex_fork_branches \<and>
   \<not> isl (from_tree ex_fork_get_branches ex_fork) \<and>
   tree_len (projr (from_tree ex_fork_get_branches ex_fork)) = 3 \<and>
   1 + length (branching_ids ex_fork) + length (tip_ids ex_fork) = 4"
  by code_simp




text \<open>
  C7 (amended). On the BranchTree \<^verbatim>\<open>from_tree\<close> returns for a tree that keeps the Node
  Tree invariant, has root id 0 and Branches that keep the extractor contract,
  \<^verbatim>\<open>get_node_branches(n)\<close> returns a non-empty list when \<open>n\<close> is the new id of the first
  node of some Branch, and raises \<open>KeyError\<close> for every other \<open>n\<close>. In particular it raises
  for the new id of every tip that ends a Branch, although the tip is a retained node, and
  for the root of a tree with no Branch.
\<close>

theorem node_branches_lookup:
  assumes "valid_tree t" and "root_ids t = [0]" and "branch_contract t (g t)"
  shows "\<exists>bt. from_tree g t = Inr bt \<and>
           (\<forall>n. if \<exists>br\<in>set (g t).
                      id_remap (0 # map (\<lambda>br. nid (last br)) (g t)) (nid (hd br)) = Some n
                then \<exists>brs. get_node_branches bt n = Inr brs \<and> brs \<noteq> []
                else get_node_branches bt n = Inl KeyError) \<and>
           (\<forall>br\<in>set (g t). n_children t (nid (last br)) = 0 \<longrightarrow>
              (\<exists>k. id_remap (0 # map (\<lambda>br. nid (last br)) (g t)) (nid (last br)) = Some k \<and>
                   k \<in> set (nd_id bt) \<and> get_node_branches bt k = Inl KeyError)) \<and>
           (g t = [] \<longrightarrow> nd_id bt = [0] \<and> get_node_branches bt 0 = Inl KeyError)"
proof -
  let ?remap = "id_remap (0 # map (\<lambda>br. nid (last br)) (g t))"
  obtain bt where bt: "from_tree g t = Inr bt"
    and ids: "nd_id bt = map int [0..<Suc (length (g t))]"
    and keys: "fst ` set (branches bt) = {k. \<exists>br\<in>set (g t). ?remap (nid (hd br)) = Some k}"
    and fl: "\<forall>k. filed (branches bt) k =
               map detach (filter (\<lambda>br. ?remap (nid (hd br)) = Some k) (g t))"
    using from_tree_branches[of t g, OF assms] by blast
  have look: "get_node_branches bt n =
      (if \<exists>br\<in>set (g t). ?remap (nid (hd br)) = Some n
       then Inr (map detach (filter (\<lambda>br. ?remap (nid (hd br)) = Some n) (g t)))
       else Inl KeyError)" for n
    using keys by (simp add: get_node_branches_iff fl)
  have 1: "\<forall>n. if \<exists>br\<in>set (g t). ?remap (nid (hd br)) = Some n
                then \<exists>brs. get_node_branches bt n = Inr brs \<and> brs \<noteq> []
                else get_node_branches bt n = Inl KeyError"
    by (auto simp: look filter_empty_conv)
  have 2: "\<forall>br\<in>set (g t). n_children t (nid (last br)) = 0 \<longrightarrow>
              (\<exists>k. ?remap (nid (last br)) = Some k \<and>
                   k \<in> set (nd_id bt) \<and> get_node_branches bt k = Inl KeyError)"
  proof (intro ballI impI)
    fix br assume br: "br \<in> set (g t)" and tip: "n_children t (nid (last br)) = 0"
    from br have "?remap (nid (last br)) \<noteq> None"
      by (simp only: id_remap_None_iff not_not) simp
    then obtain k where k: "?remap (nid (last br)) = Some k" by auto
    have "\<not> (\<exists>br'\<in>set (g t). ?remap (nid (hd br')) = Some k)"
    proof
      assume "\<exists>br'\<in>set (g t). ?remap (nid (hd br')) = Some k"
      then obtain br' where br': "br' \<in> set (g t)" "?remap (nid (hd br')) = Some k" by auto
      from id_remap_inj[OF br'(2) k] have "nid (hd br') = nid (last br)" .
      with first_has_child[OF assms(1,3) br'(1)] tip show False by simp
    qed
    then have "get_node_branches bt k = Inl KeyError"
      by (simp add: look)
    with k new_id_in_reduced[OF k ids]
    show "\<exists>k. ?remap (nid (last br)) = Some k \<and>
                   k \<in> set (nd_id bt) \<and> get_node_branches bt k = Inl KeyError"
      by blast
  qed
  have 3: "g t = [] \<longrightarrow> nd_id bt = [0] \<and> get_node_branches bt 0 = Inl KeyError"
    by (simp add: look ids)
  from bt 1 2 3 show ?thesis by blast
qed

theorem node_branches_lookup_witness:
  "valid_tree ex_chain5 \<and> root_ids ex_chain5 = [0] \<and>
   branch_contract ex_chain5 ex_chain5_branches \<and>
   (\<exists>bt. from_tree ex_chain5_get_branches ex_chain5 = Inr bt \<and>
         (\<exists>brs. get_node_branches bt 1 = Inr brs \<and> brs \<noteq> []) \<and>
         get_node_branches bt 2 = Inl KeyError \<and>
         get_node_branches bt 7 = Inl KeyError)"
proof -
  have v: "valid_tree ex_chain5" by code_simp
  have r: "root_ids ex_chain5 = [0]" by code_simp
  have c: "branch_contract ex_chain5 ex_chain5_branches" by code_simp
  have g: "ex_chain5_get_branches ex_chain5 = ex_chain5_branches"
    by (simp add: ex_chain5_get_branches_def)
  from c have c': "branch_contract ex_chain5 (ex_chain5_get_branches ex_chain5)"
    by (simp only: g)
  let ?remap = "id_remap (0 # map (\<lambda>br. nid (last br)) ex_chain5_branches)"
  have h: "map (\<lambda>br. ?remap (nid (hd br))) ex_chain5_branches = [Some 0, Some 1, Some 1]"
    by code_simp
  have e: "(\<exists>br\<in>set ex_chain5_branches. ?remap (nid (hd br)) = Some n) \<longleftrightarrow> n = 0 \<or> n = 1" for n
  proof -
    have "(\<exists>br\<in>set ex_chain5_branches. ?remap (nid (hd br)) = Some n) \<longleftrightarrow>
          Some n \<in> set (map (\<lambda>br. ?remap (nid (hd br))) ex_chain5_branches)"
      by (simp only: set_map image_iff) metis
    also have "\<dots> \<longleftrightarrow> n = 0 \<or> n = 1"
      by (simp only: h) auto
    finally show ?thesis .
  qed
  from node_branches_lookup[of ex_chain5 ex_chain5_get_branches, OF v r c', unfolded g]
  obtain bt where bt: "from_tree ex_chain5_get_branches ex_chain5 = Inr bt"
    and lk: "\<And>n. if \<exists>br\<in>set ex_chain5_branches. ?remap (nid (hd br)) = Some n
                then \<exists>brs. get_node_branches bt n = Inr brs \<and> brs \<noteq> []
                else get_node_branches bt n = Inl KeyError"
    by blast
  from lk[of 1] lk[of 2] lk[of 7] have
    "(\<exists>brs. get_node_branches bt 1 = Inr brs \<and> brs \<noteq> [])"
    "get_node_branches bt 2 = Inl KeyError" "get_node_branches bt 7 = Inl KeyError"
    by (simp_all only: e) simp_all
  with v r c bt show ?thesis by blast
qed

text \<open>
  C7 as stated fails for a retained tip: in the BranchTree of the root with two tips
  \<open>ex_fork\<close>, id 1 is a retained node and \<^verbatim>\<open>get_node_branches(1)\<close> raises \<open>KeyError\<close>.
\<close>

theorem tip_lookup_fails:
  "valid_tree ex_fork \<and> root_ids ex_fork = [0] \<and> branch_contract ex_fork ex_fork_branches \<and>
   \<not> isl (from_tree ex_fork_get_branches ex_fork) \<and>
   nd_id (projr (from_tree ex_fork_get_branches ex_fork)) = [0, 1, 2] \<and>
   get_node_branches (projr (from_tree ex_fork_get_branches ex_fork)) 1 = Inl KeyError"
  by code_simp

end
